theory Spec2Isabelle
  imports Complex_Main "HOL-Library.Sublist" "HOL-Library.AList"
begin

section \<open>Product matching of vend-hub: the matcher of prototype/src/matcher.ts\<close>

text \<open>
  The development embeds \<^verbatim>\<open>matcher.ts\<close> function by function. Conventions:

  \<^item> a TypeScript \<^verbatim>\<open>number\<close> is a \<open>number\<close>: a finite value, held as a \<^typ>\<open>real\<close>, or one
    of \<^verbatim>\<open>Infinity\<close>, \<^verbatim>\<open>-Infinity\<close> and \<^verbatim>\<open>NaN\<close>, with the arithmetic and the comparisons
    of IEEE 754 on the three; on finite values the arithmetic is exact (no rounding, no
    overflow) and zero has no sign. The two thresholds of a configuration are finite
    numbers, held as \<^typ>\<open>real\<close>;
  \<^item> the parsers \<^verbatim>\<open>parseSize\<close> and \<^verbatim>\<open>parseNumber\<close> are not embedded: the size and the
    price of a product are any \<open>number\<close>. Both read a run of decimal digits with
    \<^verbatim>\<open>parseFloat\<close>, whose value is \<^verbatim>\<open>Infinity\<close> from 309 digits on;
  \<^item> a TypeScript \<^verbatim>\<open>string\<close> is a \<^typ>\<open>string\<close> over the ASCII characters: lower-casing
    touches \<^verbatim>\<open>A-Z\<close> only and white space is the ASCII white space of \<^verbatim>\<open>\s\<close>;
  \<^item> an optional field \<^verbatim>\<open>f?: T\<close> is a \<^typ>\<open>'a option\<close>, \<^verbatim>\<open>undefined\<close> being \<^term>\<open>None\<close>;
    JavaScript truthiness (\<^verbatim>\<open>!x\<close>, \<^verbatim>\<open>Boolean(x)\<close>, \<^verbatim>\<open>x && y\<close>) is written out by
    \<open>truthyString\<close> and \<open>truthyNumber\<close>;
  \<^item> \<^verbatim>\<open>throw new Error(msg)\<close> is the left injection of a sum;
  \<^item> an object used as a dictionary is an association list in insertion order; a read
    \<^verbatim>\<open>obj[k]\<close> of a key the object does not own falls through to \<^verbatim>\<open>Object.prototype\<close>,
    whose properties are functions and objects, not strings (\<open>JSValue\<close>);
  \<^item> the fields of \<^verbatim>\<open>FeatureScores\<close> carry the suffix \<open>_score\<close> and those of
    \<^verbatim>\<open>ProductSummary\<close> the prefix \<open>sum_\<close>, since a record field is a constant of its
    own and the three interfaces of the source share their field names;
  \<^item> the tracing of \<^verbatim>\<open>matchProducts\<close> under \<^verbatim>\<open>DEBUG_MATCHES\<close> writes to the console
    and changes no value; it is left out.
\<close>

subsection \<open>Strings\<close>

definition isWhitespace :: "char \<Rightarrow> bool" where
  \<comment> \<open>the class \<^verbatim>\<open>\s\<close>, which is also what \<^verbatim>\<open>trim\<close> strips\<close>
  "isWhitespace c =
     (c \<in> set [CHR '' '', CHR 0x09, CHR 0x0A, CHR 0x0B, CHR 0x0C, CHR 0x0D])"

definition isDigit :: "char \<Rightarrow> bool" where
  \<comment> \<open>the class \<^verbatim>\<open>\d\<close>\<close>
  "isDigit c = (c \<in> set ''0123456789'')"

definition isLowerAlnum :: "char \<Rightarrow> bool" where
  \<comment> \<open>the class \<^verbatim>\<open>[a-z0-9]\<close>\<close>
  "isLowerAlnum c = (c \<in> set ''abcdefghijklmnopqrstuvwxyz0123456789'')"

definition toLowerChar :: "char \<Rightarrow> char" where
  "toLowerChar c =
     (case map_of (zip ''ABCDEFGHIJKLMNOPQRSTUVWXYZ'' ''abcdefghijklmnopqrstuvwxyz'') c of
        Some l \<Rightarrow> l
      | None \<Rightarrow> c)"

definition toLowerCase :: "string \<Rightarrow> string" where
  "toLowerCase s = map toLowerChar s"

definition trim :: "string \<Rightarrow> string" where
  "trim s = rev (dropWhile isWhitespace (rev (dropWhile isWhitespace s)))"

fun includes_str :: "string \<Rightarrow> string \<Rightarrow> bool" where
  \<comment> \<open>\<^verbatim>\<open>s.includes(sub)\<close>\<close>
  "includes_str [] sub = (sub = [])"
| "includes_str (c # cs) sub = (prefix sub (c # cs) \<or> includes_str cs sub)"

function splitRuns :: "(char \<Rightarrow> bool) \<Rightarrow> string \<Rightarrow> string \<Rightarrow> string list" where
  \<comment> \<open>\<^verbatim>\<open>s.split(/[...]+/)\<close> for a character class: \<open>cur\<close> is the piece being read\<close>
  "splitRuns sep cur [] = [cur]"
| "splitRuns sep cur (c # cs) =
     (if sep c then cur # splitRuns sep [] (dropWhile sep cs)
      else splitRuns sep (cur @ [c]) cs)"
  by pat_completeness auto
termination
  by (relation "measure (\<lambda>(sep, cur, s). length s)")
     (auto simp: less_Suc_eq_le length_dropWhile_le)

definition truthyString :: "string option \<Rightarrow> bool" where
  "truthyString v = (case v of None \<Rightarrow> False | Some s \<Rightarrow> s \<noteq> [])"

subsection \<open>Numbers\<close>

text \<open>
  The numbers of JavaScript and the operations the matcher applies to them: \<^verbatim>\<open>+\<close>, \<^verbatim>\<open>-\<close>,
  \<^verbatim>\<open>*\<close>, \<^verbatim>\<open>/\<close>, \<^verbatim>\<open>Math.abs\<close>, \<^verbatim>\<open>Math.max\<close>, \<^verbatim>\<open>Math.min\<close>, the comparisons and the
  truthiness of a number. \<^verbatim>\<open>NaN\<close> is absorbing and makes every comparison false.
\<close>

datatype number = Fin real | PosInf | NegInf | NaN

fun js_neg :: "number \<Rightarrow> number" where
  "js_neg (Fin a) = Fin (- a)"
| "js_neg PosInf = NegInf"
| "js_neg NegInf = PosInf"
| "js_neg NaN = NaN"

fun js_add :: "number \<Rightarrow> number \<Rightarrow> number" where
  "js_add NaN y = NaN"
| "js_add x NaN = NaN"
| "js_add (Fin a) (Fin b) = Fin (a + b)"
| "js_add PosInf NegInf = NaN"
| "js_add NegInf PosInf = NaN"
| "js_add PosInf y = PosInf"
| "js_add NegInf y = NegInf"
| "js_add (Fin a) y = y"

definition js_sub :: "number \<Rightarrow> number \<Rightarrow> number" where
  "js_sub x y = js_add x (js_neg y)"

fun number_sign :: "number \<Rightarrow> real" where
  "number_sign (Fin a) = sgn a"
| "number_sign PosInf = 1"
| "number_sign NegInf = - 1"
| "number_sign NaN = 0"

definition infinity_of_sign :: "real \<Rightarrow> number" where
  "infinity_of_sign s = (if s = 0 then NaN else if 0 < s then PosInf else NegInf)"

fun js_mul :: "number \<Rightarrow> number \<Rightarrow> number" where
  "js_mul NaN y = NaN"
| "js_mul x NaN = NaN"
| "js_mul (Fin a) (Fin b) = Fin (a * b)"
| "js_mul x y = infinity_of_sign (number_sign x * number_sign y)"

fun js_div :: "number \<Rightarrow> number \<Rightarrow> number" where
  \<comment> \<open>a zero divisor is \<open>+0\<close>\<close>
  "js_div NaN y = NaN"
| "js_div x NaN = NaN"
| "js_div (Fin a) (Fin b) = (if b = 0 then infinity_of_sign (sgn a) else Fin (a / b))"
| "js_div (Fin a) y = Fin 0"
| "js_div x (Fin b) = infinity_of_sign (number_sign x * (if b < 0 then - 1 else 1))"
| "js_div x y = NaN"

fun Math_abs :: "number \<Rightarrow> number" where
  "Math_abs (Fin a) = Fin \<bar>a\<bar>"
| "Math_abs PosInf = PosInf"
| "Math_abs NegInf = PosInf"
| "Math_abs NaN = NaN"

fun js_lt :: "number \<Rightarrow> number \<Rightarrow> bool" where
  \<comment> \<open>\<^verbatim>\<open>x < y\<close>: false as soon as one side is \<^verbatim>\<open>NaN\<close>\<close>
  "js_lt NaN y = False"
| "js_lt x NaN = False"
| "js_lt (Fin a) (Fin b) = (a < b)"
| "js_lt x NegInf = False"
| "js_lt PosInf y = False"
| "js_lt x y = True"

definition js_gt :: "number \<Rightarrow> number \<Rightarrow> bool" where
  "js_gt x y = js_lt y x"

definition js_eq :: "number \<Rightarrow> number \<Rightarrow> bool" where
  \<comment> \<open>\<^verbatim>\<open>x === y\<close>\<close>
  "js_eq x y = (x = y \<and> x \<noteq> NaN)"

definition js_le :: "number \<Rightarrow> number \<Rightarrow> bool" where
  "js_le x y = (js_lt x y \<or> js_eq x y)"

definition js_ge :: "number \<Rightarrow> number \<Rightarrow> bool" where
  "js_ge x y = js_le y x"

definition Math_max :: "number \<Rightarrow> number \<Rightarrow> number" where
  "Math_max x y = (if x = NaN \<or> y = NaN then NaN else if js_lt x y then y else x)"

definition Math_min :: "number \<Rightarrow> number \<Rightarrow> number" where
  "Math_min x y = (if x = NaN \<or> y = NaN then NaN else if js_lt y x then y else x)"

definition truthyNumber :: "number option \<Rightarrow> bool" where
  "truthyNumber v = (case v of None \<Rightarrow> False | Some x \<Rightarrow> x \<noteq> NaN \<and> x \<noteq> Fin 0)"

subsection \<open>The data model\<close>

datatype Source = S365 | Haha

datatype Decision = Auto | Review

record FeatureScores =
  upc_score :: number
  name_score :: number
  brand_score :: number
  size_score :: number
  category_score :: number
  price_score :: number
  dietPenalty :: number

record ProductSummary =
  sum_source :: Source
  sum_sourceId :: string
  sum_name :: string
  sum_brand :: "string option"
  sum_sizeOz :: "number option"
  sum_sizeLabel :: "string option"
  sum_price :: "number option"
  sum_category :: "string option"
  sum_scancode :: "string option"
  sum_extra :: "(string \<times> string option) list"

record NormalizedProduct =
  source :: Source
  sourceId :: string
  rawName :: string
  normalizedName :: string
  tokens :: "string list"
  brand :: "string option"
  sizeOz :: "number option"
  sizeLabel :: "string option"
  price :: "number option"
  category :: "string option"
  isDiet :: bool
  scancode :: "string option"
  features :: "(string \<times> string option) list"
  raw :: "(string \<times> string) list"

record MatchRecord =
  productA :: ProductSummary
  productB :: ProductSummary
  confidence :: number
  decision :: Decision
  featureScores :: FeatureScores

record MatchResult =
  matches :: "MatchRecord list"
  unmatchedA :: "ProductSummary list"
  unmatchedB :: "ProductSummary list"

record MatchOptions =
  autoAcceptThreshold :: real
  reviewThreshold :: real

record PartialMatchOptions =
  \<comment> \<open>\<^verbatim>\<open>Partial<MatchOptions>\<close>: a key is given or not\<close>
  autoAcceptThreshold_given :: "real option"
  reviewThreshold_given :: "real option"

datatype Error = Error string | TypeError string

datatype JSValue =
    JSString string
  | JSObject string
  \<comment> \<open>what a read of \<^verbatim>\<open>BRAND_SYNONYMS[k]\<close> can give: a string of the table, or the function
      or object that \<^verbatim>\<open>Object.prototype\<close> holds under the name \<open>k\<close>\<close>

definition BRAND_SYNONYMS :: "(string \<times> string) list" where
  "BRAND_SYNONYMS =
     [(''coke'', ''coca cola''),
      (''coca-cola'', ''coca cola''),
      (''coca'', ''coca cola''),
      (''coca cola'', ''coca cola''),
      (''diet coke'', ''diet coca cola''),
      (''coca-cola diet'', ''diet coca cola''),
      (''diet coca cola'', ''diet coca cola''),
      (''coca cola diet'', ''diet coca cola''),
      (''pepsi cola'', ''pepsi''),
      (''pepsi-cola'', ''pepsi''),
      (''redbull'', ''red bull''),
      (''redbull energy'', ''red bull''),
      (''redbull energy drink'', ''red bull''),
      (''red bull'', ''red bull''),
      (''snickers'', ''snickers''),
      (''lays'', ''lays''),
      (''doritos'', ''doritos''),
      (''aquafina'', ''aquafina''),
      (''dasani'', ''dasani'')]"

definition DEFAULT_OPTIONS :: MatchOptions where
  "DEFAULT_OPTIONS = \<lparr>autoAcceptThreshold = 0.82, reviewThreshold = 0.6\<rparr>"

subsection \<open>Numeric helpers\<close>

definition clamp :: "number \<Rightarrow> number \<Rightarrow> number \<Rightarrow> number" where
  "clamp v mn mx = Math_min mx (Math_max mn v)"

fun Math_round :: "number \<Rightarrow> number" where
  \<comment> \<open>\<^verbatim>\<open>Math.round\<close>: the nearest integer, a tie going up\<close>
  "Math_round (Fin x) = Fin (real_of_int \<lfloor>x + 1 / 2\<rfloor>)"
| "Math_round x = x"

definition round_to :: "number \<Rightarrow> nat \<Rightarrow> number" where
  \<comment> \<open>\<^verbatim>\<open>round(value, decimals)\<close>; every call of the source leaves \<open>decimals\<close> at 2\<close>
  "round_to v decimals =
     (let factor = Fin (10 ^ decimals) in js_div (Math_round (js_mul v factor)) factor)"

subsection \<open>Brands and categories\<close>

definition OBJECT_PROTOTYPE_KEYS :: "string list" where
  \<comment> \<open>the properties every object literal inherits\<close>
  "OBJECT_PROTOTYPE_KEYS =
     [''constructor'', ''__defineGetter__'', ''__defineSetter__'', ''hasOwnProperty'',
      ''__lookupGetter__'', ''__lookupSetter__'', ''isPrototypeOf'', ''propertyIsEnumerable'',
      ''toString'', ''valueOf'', ''__proto__'', ''toLocaleString'']"

definition readSynonym :: "string \<Rightarrow> JSValue option" where
  \<comment> \<open>\<^verbatim>\<open>BRAND_SYNONYMS[k]\<close>\<close>
  "readSynonym k =
     (case map_of BRAND_SYNONYMS k of
        Some v \<Rightarrow> Some (JSString v)
      | None \<Rightarrow> if k \<in> set OBJECT_PROTOTYPE_KEYS then Some (JSObject k) else None)"

definition truthyValue :: "JSValue option \<Rightarrow> bool" where
  "truthyValue v =
     (case v of None \<Rightarrow> False | Some (JSString s) \<Rightarrow> s \<noteq> [] | Some (JSObject k) \<Rightarrow> True)"

definition canonicalizeBrand :: "string option \<Rightarrow> JSValue option" where
  \<comment> \<open>on a string or \<^verbatim>\<open>undefined\<close>, as its signature has it\<close>
  "canonicalizeBrand b =
     (case b of
        None \<Rightarrow> None
      | Some s \<Rightarrow>
          if s = [] then None
          else let lower = trim (toLowerCase s) in
               if truthyValue (readSynonym lower) then readSynonym lower
               else Some (JSString lower))"

definition canonicalizeCategory :: "string option \<Rightarrow> string option" where
  "canonicalizeCategory v =
     (case v of
        None \<Rightarrow> None
      | Some s \<Rightarrow>
          if s = [] then None
          else let normalized = toLowerCase s in
               if includes_str normalized ''soda'' \<or> includes_str normalized ''cola''
                 then Some ''beverage soda''
               else if includes_str normalized ''water'' then Some ''beverage water''
               else if includes_str normalized ''energy'' then Some ''beverage energy''
               else if includes_str normalized ''chips'' then Some ''snack chips''
               else if includes_str normalized ''candy'' \<or> includes_str normalized ''chocolate''
                 then Some ''snack candy''
               else Some normalized)"

definition firstWord :: "string \<Rightarrow> string" where
  \<comment> \<open>\<^verbatim>\<open>s.split(" ")[0]\<close>\<close>
  "firstWord s = takeWhile (\<lambda>c. c \<noteq> CHR '' '') s"

subsection \<open>Feature scores\<close>

definition scoreUPC :: "NormalizedProduct \<Rightarrow> NormalizedProduct \<Rightarrow> number" where
  "scoreUPC a b =
     (if \<not> truthyString (scancode a) \<or> \<not> truthyString (scancode b) then Fin 0
      else if scancode a = scancode b then Fin 1 else Fin 0)"

definition scoreNameTokens :: "string list \<Rightarrow> string list \<Rightarrow> number" where
  "scoreNameTokens tokensA tokensB =
     (if tokensA = [] \<or> tokensB = [] then Fin 0
      else let intersectionSize = length (filter (\<lambda>token. token \<in> set tokensB) tokensA);
               unionSize = length (remdups (tokensA @ tokensB))
           in if unionSize = 0 then Fin 0
              else js_div (Fin (real intersectionSize)) (Fin (real unionSize)))"

definition scoreBrand :: "string option \<Rightarrow> string option \<Rightarrow> number" where
  "scoreBrand brandA brandB =
     (if \<not> truthyString brandA \<and> \<not> truthyString brandB then Fin 0
      else if \<not> truthyString brandA \<or> \<not> truthyString brandB then Fin 0.2
      else if brandA = brandB then Fin 1
      else let canonicalA = canonicalizeBrand brandA;
               canonicalB = canonicalizeBrand brandB
           in if canonicalA = canonicalB then Fin 0.7 else Fin 0)"

definition scoreSize :: "number option \<Rightarrow> number option \<Rightarrow> number" where
  "scoreSize sizeA sizeB =
     (if \<not> truthyNumber sizeA \<or> \<not> truthyNumber sizeB then Fin 0
      else (case (sizeA, sizeB) of
              (Some x, Some y) \<Rightarrow>
                let diff = Math_abs (js_sub x y);
                    mx = Math_max x y;
                    normalizedDiff = js_div diff mx;
                    score = Math_max (Fin 0) (js_sub (Fin 1) (js_mul normalizedDiff (Fin 1.5)))
                in clamp score (Fin 0) (Fin 1)
            | _ \<Rightarrow> Fin 0))"

definition scoreCategory :: "string option \<Rightarrow> string option \<Rightarrow> number" where
  "scoreCategory categoryA categoryB =
     (if \<not> truthyString categoryA \<and> \<not> truthyString categoryB then Fin 0
      else if \<not> truthyString categoryA \<or> \<not> truthyString categoryB then Fin 0.2
      else let normalizedA = canonicalizeCategory categoryA;
               normalizedB = canonicalizeCategory categoryB
           in if normalizedA = normalizedB then Fin 1
              else (case (normalizedA, normalizedB) of
                      (Some x, Some y) \<Rightarrow>
                        if x \<noteq> [] \<and> y \<noteq> [] \<and> firstWord x = firstWord y
                          then Fin 0.6 else Fin 0
                    | _ \<Rightarrow> Fin 0))"

definition scoreNumericSimilarity :: "number option \<Rightarrow> number option \<Rightarrow> number \<Rightarrow> number" where
  "scoreNumericSimilarity a b tolerance =
     (case (a, b) of
        (Some x, Some y) \<Rightarrow>
          if js_eq x (Fin 0) \<and> js_eq y (Fin 0) then Fin 1
          else if js_eq x (Fin 0) \<or> js_eq y (Fin 0) then Fin 0
          else let diff = Math_abs (js_sub x y);
                   avg = js_div (js_add x y) (Fin 2)
               in if js_eq avg (Fin 0) then Fin 0
                  else let ratio = js_div diff avg
                       in if js_le ratio tolerance
                            then js_sub (Fin 1) (js_div ratio tolerance)
                          else Fin 0
      | _ \<Rightarrow> Fin 0)"

definition scoreDietPenalty :: "bool \<Rightarrow> bool \<Rightarrow> number" where
  "scoreDietPenalty aIsDiet bIsDiet = (if aIsDiet = bIsDiet then Fin 0 else Fin 1)"

subsection \<open>Replacing the matches of a regular expression\<close>

text \<open>
  \<^verbatim>\<open>s.replace(/re/g, rep)\<close> scans \<open>s\<close> from the left; where the expression matches, the
  match is replaced and the scan goes on behind it, elsewhere one character is copied.
  A matcher gives the length of the match that starts at the head of its argument. None
  of the expressions of the source matches the empty string, and in each of them the
  greedy choice is the only one that can succeed, so a matcher is a function.
\<close>

function replaceAll :: "(string \<Rightarrow> nat option) \<Rightarrow> string \<Rightarrow> string \<Rightarrow> string" where
  "replaceAll m rep [] = []"
| "replaceAll m rep (c # cs) =
     (case m (c # cs) of
        Some n \<Rightarrow> rep @ replaceAll m rep (drop (n - 1) cs)
      | None \<Rightarrow> c # replaceAll m rep cs)"
  by pat_completeness auto
termination
  by (relation "measure (\<lambda>(m, rep, s). length s)") auto

definition matchFlOz :: "string \<Rightarrow> nat option" where
  \<comment> \<open>\<^verbatim>\<open>/fl\.?\s*oz/\<close>\<close>
  "matchFlOz s =
     (if prefix ''fl'' s
      then let r1 = drop 2 s;
               dot = (if prefix ''.'' r1 then 1 else 0);
               r2 = drop dot r1;
               ws = length (takeWhile isWhitespace r2);
               r3 = drop ws r2
           in if prefix ''oz'' r3 then Some (2 + dot + ws + 2) else None
      else None)"

definition matchOunces :: "string \<Rightarrow> nat option" where
  \<comment> \<open>\<^verbatim>\<open>/ounces?/\<close>\<close>
  "matchOunces s =
     (if prefix ''ounces'' s then Some 6 else if prefix ''ounce'' s then Some 5 else None)"

definition matchOzDot :: "string \<Rightarrow> nat option" where
  \<comment> \<open>\<^verbatim>\<open>/oz\./\<close>\<close>
  "matchOzDot s = (if prefix ''oz.'' s then Some 3 else None)"

definition matchChar :: "(char \<Rightarrow> bool) \<Rightarrow> string \<Rightarrow> nat option" where
  \<comment> \<open>one character of a class\<close>
  "matchChar P s = (case s of [] \<Rightarrow> None | c # _ \<Rightarrow> if P c then Some 1 else None)"

definition matchWhitespaceRun :: "string \<Rightarrow> nat option" where
  \<comment> \<open>\<^verbatim>\<open>/\s+/\<close>\<close>
  "matchWhitespaceRun s =
     (let n = length (takeWhile isWhitespace s) in if n = 0 then None else Some n)"

subsection \<open>Name normalization and name similarity\<close>

definition normalizeName :: "string \<Rightarrow> string" where
  "normalizeName v =
     (let lower = toLowerCase v;
          r1 = replaceAll matchFlOz ''oz'' lower;
          r2 = replaceAll matchOunces ''oz'' r1;
          r3 = replaceAll matchOzDot ''oz'' r2;
          r4 = replaceAll (matchChar (\<lambda>c. c = CHR ''-'')) '' '' r3;
          r5 = replaceAll (matchChar (\<lambda>c. \<not> isLowerAlnum c \<and> \<not> isWhitespace c)) '' '' r4;
          r6 = replaceAll matchWhitespaceRun '' '' r5
      in trim r6)"

fun bigramsFrom :: "string \<Rightarrow> string list" where
  \<comment> \<open>the loop of \<^verbatim>\<open>buildBigrams\<close>: \<^verbatim>\<open>sanitized.slice(i, i + 2)\<close> for every \<open>i\<close>\<close>
  "bigramsFrom (x # y # r) = [x, y] # bigramsFrom (y # r)"
| "bigramsFrom r = []"

definition buildBigrams :: "string \<Rightarrow> string list" where
  "buildBigrams v =
     (let sanitized = trim (replaceAll matchWhitespaceRun '' '' v)
      in if length sanitized < 2 then [] else bigramsFrom sanitized)"

definition countOccurrences :: "string list \<Rightarrow> (string \<times> nat) list" where
  \<comment> \<open>a \<^verbatim>\<open>Map\<close> keeps its keys in insertion order, as \<open>AList.update\<close> does\<close>
  "countOccurrences vs =
     foldl (\<lambda>counts v.
              AList.update v ((case map_of counts v of None \<Rightarrow> 0 | Some n \<Rightarrow> n) + 1) counts)
           [] vs"

definition scoreCharacterBigram :: "string \<Rightarrow> string \<Rightarrow> number" where
  "scoreCharacterBigram a b =
     (let gramsA = buildBigrams a;
          gramsB = buildBigrams b
      in if gramsA = [] \<or> gramsB = [] then Fin 0
         else let countsA = countOccurrences gramsA;
                  countsB = countOccurrences gramsB;
                  intersection =
                    foldl (\<lambda>acc (gram, countA).
                             (case map_of countsB gram of
                                None \<Rightarrow> acc
                              | Some countB \<Rightarrow>
                                  if countB = 0 then acc else acc + min countA countB))
                          0 countsA
              in js_div (Fin (real (2 * intersection)))
                        (Fin (real (length gramsA + length gramsB))))"

definition scoreNameSimilarity :: "NormalizedProduct \<Rightarrow> NormalizedProduct \<Rightarrow> number" where
  "scoreNameSimilarity a b =
     (let tokenScore = scoreNameTokens (tokens a) (tokens b);
          bigramScore = scoreCharacterBigram (normalizedName a) (normalizedName b)
      in Math_max tokenScore bigramScore)"

subsection \<open>Aggregation\<close>

definition computeFeatureScores :: "NormalizedProduct \<Rightarrow> NormalizedProduct \<Rightarrow> FeatureScores" where
  "computeFeatureScores a b =
     \<lparr>upc_score = scoreUPC a b,
      name_score = scoreNameSimilarity a b,
      brand_score = scoreBrand (brand a) (brand b),
      size_score = scoreSize (sizeOz a) (sizeOz b),
      category_score = scoreCategory (category a) (category b),
      price_score = scoreNumericSimilarity (price a) (price b) (Fin 0.25),
      dietPenalty = scoreDietPenalty (isDiet a) (isDiet b)\<rparr>"

definition isLikelyUPC :: "string option \<Rightarrow> bool" where
  \<comment> \<open>\<^verbatim>\<open>/^\d{8,14}$/\<close>\<close>
  "isLikelyUPC v =
     (case v of
        None \<Rightarrow> False
      | Some s \<Rightarrow> s \<noteq> [] \<and> 8 \<le> length s \<and> length s \<le> 14 \<and> list_all isDigit s)"

record Component =
  score :: number
  weight :: number
  available :: bool

definition components :: "FeatureScores \<Rightarrow> NormalizedProduct \<Rightarrow> NormalizedProduct \<Rightarrow> Component list" where
  \<comment> \<open>the array \<^verbatim>\<open>components\<close> of \<^verbatim>\<open>computeConfidence\<close>\<close>
  "components scores prodA prodB =
     [\<lparr>score = upc_score scores, weight = Fin 0.25,
       available = (isLikelyUPC (scancode prodA) \<and> isLikelyUPC (scancode prodB))\<rparr>,
      \<lparr>score = name_score scores, weight = Fin 0.25, available = True\<rparr>,
      \<lparr>score = brand_score scores, weight = Fin 0.2,
       available = (truthyString (brand prodA) \<and> truthyString (brand prodB))\<rparr>,
      \<lparr>score = size_score scores, weight = Fin 0.2,
       available = (truthyNumber (sizeOz prodA) \<and> truthyNumber (sizeOz prodB))\<rparr>,
      \<lparr>score = category_score scores, weight = Fin 0.05,
       available = (truthyString (category prodA) \<and> truthyString (category prodB))\<rparr>,
      \<lparr>score = price_score scores, weight = Fin 0.05,
       available = (price prodA \<noteq> None \<and> price prodB \<noteq> None)\<rparr>]"

definition computeConfidence :: "FeatureScores \<Rightarrow> NormalizedProduct \<Rightarrow> NormalizedProduct \<Rightarrow> number" where
  "computeConfidence scores prodA prodB =
     (let cs = components scores prodA prodB;
          weightSum = foldl (\<lambda>sum c. if available c then js_add sum (weight c) else sum)
                        (Fin 0) cs
      in if js_eq weightSum (Fin 0) then Fin 0
         else let weightedScore =
                    foldl (\<lambda>sum c. if \<not> available c then sum
                                     else js_add sum (js_mul (score c) (weight c)))
                      (Fin 0) cs;
                  normalizedScore = js_div weightedScore weightSum;
                  penalty = js_mul (dietPenalty scores) (Fin 0.05)
              in clamp (js_sub normalizedScore penalty) (Fin 0) (Fin 1))"

subsection \<open>The matcher\<close>

definition summarizeProduct :: "NormalizedProduct \<Rightarrow> ProductSummary" where
  "summarizeProduct p =
     \<lparr>sum_source = source p,
      sum_sourceId = sourceId p,
      sum_name = rawName p,
      sum_brand = brand p,
      sum_sizeOz = sizeOz p,
      sum_sizeLabel = sizeLabel p,
      sum_price = price p,
      sum_category = category p,
      sum_scancode = scancode p,
      sum_extra = features p\<rparr>"

definition mapScores :: "FeatureScores \<Rightarrow> FeatureScores" where
  "mapScores scores =
     \<lparr>upc_score = round_to (upc_score scores) 2,
      name_score = round_to (name_score scores) 2,
      brand_score = round_to (brand_score scores) 2,
      size_score = round_to (size_score scores) 2,
      category_score = round_to (category_score scores) 2,
      price_score = round_to (price_score scores) 2,
      dietPenalty = round_to (dietPenalty scores) 2\<rparr>"

definition resolveOptions :: "PartialMatchOptions \<Rightarrow> MatchOptions" where
  \<comment> \<open>\<^verbatim>\<open>{ ...DEFAULT_OPTIONS, ...options }\<close>\<close>
  "resolveOptions options =
     \<lparr>autoAcceptThreshold =
        (case autoAcceptThreshold_given options of
           Some v \<Rightarrow> v | None \<Rightarrow> autoAcceptThreshold DEFAULT_OPTIONS),
      reviewThreshold =
        (case reviewThreshold_given options of
           Some v \<Rightarrow> v | None \<Rightarrow> reviewThreshold DEFAULT_OPTIONS)\<rparr>"

record BestMatch =
  \<comment> \<open>the object held by \<^verbatim>\<open>bestMatch\<close>; its fields carry the prefix \<open>bm_\<close>\<close>
  bm_product :: NormalizedProduct
  bm_confidence :: number
  bm_scores :: FeatureScores

fun scanCandidates ::
  "MatchOptions \<Rightarrow> NormalizedProduct \<Rightarrow> BestMatch option \<Rightarrow> NormalizedProduct list \<Rightarrow> BestMatch option"
where
  \<comment> \<open>the inner loop over \<^verbatim>\<open>productsB\<close>, with its fast skip\<close>
  "scanCandidates resolvedOptions prodA bestMatch [] = bestMatch"
| "scanCandidates resolvedOptions prodA bestMatch (prodB # rest) =
     (let scs = computeFeatureScores prodA prodB;
          conf = computeConfidence scs prodA prodB
      in if js_lt conf (Fin (reviewThreshold resolvedOptions * 0.65))
           then scanCandidates resolvedOptions prodA bestMatch rest
         else if (case bestMatch of None \<Rightarrow> True | Some bm \<Rightarrow> js_gt conf (bm_confidence bm))
           then scanCandidates resolvedOptions prodA
                  (Some \<lparr>bm_product = prodB, bm_confidence = conf, bm_scores = scs\<rparr>) rest
         else scanCandidates resolvedOptions prodA bestMatch rest)"

record MatchState =
  \<comment> \<open>what the outer loop updates: \<^verbatim>\<open>matches\<close>, \<^verbatim>\<open>unmatchedA\<close> and \<^verbatim>\<open>matchedBIds\<close>\<close>
  st_matches :: "MatchRecord list"
  st_unmatchedA :: "ProductSummary list"
  st_matchedBIds :: "string set"

definition matchStep ::
  "MatchOptions \<Rightarrow> NormalizedProduct list \<Rightarrow> MatchState \<Rightarrow> NormalizedProduct \<Rightarrow> MatchState"
where
  \<comment> \<open>one turn of the outer loop\<close>
  "matchStep resolvedOptions productsB st prodA =
     (let bestMatch = scanCandidates resolvedOptions prodA None productsB;
          unmatched = st\<lparr>st_unmatchedA := st_unmatchedA st @ [summarizeProduct prodA]\<rparr>
      in case bestMatch of
           None \<Rightarrow> unmatched
         | Some bm \<Rightarrow>
             if js_lt (bm_confidence bm) (Fin (reviewThreshold resolvedOptions)) then unmatched
             else let d = (if js_ge (bm_confidence bm) (Fin (autoAcceptThreshold resolvedOptions))
                           then Auto else Review)
                  in st\<lparr>st_matches := st_matches st @
                          [\<lparr>productA = summarizeProduct prodA,
                            productB = summarizeProduct (bm_product bm),
                            confidence = round_to (bm_confidence bm) 2,
                            decision = d,
                            featureScores = mapScores (bm_scores bm)\<rparr>],
                        st_matchedBIds := insert (sourceId (bm_product bm)) (st_matchedBIds st)\<rparr>)"

definition matchProducts ::
  "NormalizedProduct list \<Rightarrow> NormalizedProduct list \<Rightarrow> PartialMatchOptions \<Rightarrow> Error + MatchResult"
where
  "matchProducts productsA productsB options =
     (let resolvedOptions = resolveOptions options
      in if reviewThreshold resolvedOptions > autoAcceptThreshold resolvedOptions
           then Inl (Error ''reviewThreshold must be <= autoAcceptThreshold'')
         else let st = foldl (matchStep resolvedOptions productsB)
                         \<lparr>st_matches = [], st_unmatchedA = [], st_matchedBIds = {}\<rparr> productsA;
                  unmatchedB' = map summarizeProduct
                                 (filter (\<lambda>p. sourceId p \<notin> st_matchedBIds st) productsB)
              in Inr \<lparr>matches = st_matches st,
                      unmatchedA = st_unmatchedA st,
                      unmatchedB = unmatchedB'\<rparr>)"

subsection \<open>Brand extraction\<close>

definition synonymKeys :: "string list" where
  \<comment> \<open>\<^verbatim>\<open>Object.keys(BRAND_SYNONYMS).sort((a, b) => b.length - a.length)\<close>; the sort is stable\<close>
  "synonymKeys = sort_key (\<lambda>k. - int (length k)) (map fst BRAND_SYNONYMS)"

fun firstCanonical :: "string list \<Rightarrow> JSValue option" where
  \<comment> \<open>the loop over \<^verbatim>\<open>tokens\<close> of \<^verbatim>\<open>extractBrand\<close>\<close>
  "firstCanonical [] = None"
| "firstCanonical (token # rest) =
     (let canonical = canonicalizeBrand (Some token)
      in if truthyValue canonical then canonical else firstCanonical rest)"

definition brandTokens :: "string \<Rightarrow> string list" where
  \<comment> \<open>\<^verbatim>\<open>normalized.split(/[\s,]+/).filter(Boolean)\<close>\<close>
  "brandTokens normalized =
     filter (\<lambda>t. t \<noteq> []) (splitRuns (\<lambda>c. isWhitespace c \<or> c = CHR '','') [] normalized)"

definition extractBrand :: "string \<Rightarrow> JSValue option" where
  "extractBrand rawName' =
     (let normalized = toLowerCase rawName'
      in case find (\<lambda>key. includes_str normalized key) synonymKeys of
           Some key \<Rightarrow> readSynonym key
         | None \<Rightarrow>
             (let ts = brandTokens normalized
              in if ts = [] then None
                 else (case firstCanonical ts of
                         Some canonical \<Rightarrow> Some canonical
                       | None \<Rightarrow> Some (JSString (hd ts)))))"

definition canonicalizeBrand_of_value :: "JSValue option \<Rightarrow> Error + JSValue option" where
  \<comment> \<open>\<^verbatim>\<open>canonicalizeBrand(extractBrand(rawName))\<close>: on a value that is no string,
      \<^verbatim>\<open>brand.toLowerCase()\<close> throws\<close>
  "canonicalizeBrand_of_value v =
     (case v of
        None \<Rightarrow> Inr None
      | Some (JSString s) \<Rightarrow> Inr (canonicalizeBrand (Some s))
      | Some (JSObject k) \<Rightarrow> Inl (TypeError ''brand.toLowerCase is not a function''))"

definition normalize365Record_brand :: "(string \<times> string) list \<Rightarrow> Error + JSValue option" where
  \<comment> \<open>the field \<^verbatim>\<open>brand\<close> of \<^verbatim>\<open>normalize365Record(row)\<close>, or the error thrown on the way\<close>
  "normalize365Record_brand row =
     (let rawName' = (case map_of row ''PRDNAME'' of Some v \<Rightarrow> trim v | None \<Rightarrow> [])
      in canonicalizeBrand_of_value (extractBrand rawName'))"

definition normalizeHahaRecord_brand :: "(string \<times> string) list \<Rightarrow> Error + JSValue option" where
  \<comment> \<open>the field \<^verbatim>\<open>brand\<close> of \<^verbatim>\<open>normalizeHahaRecord(row)\<close>, or the error thrown on the way\<close>
  "normalizeHahaRecord_brand row =
     (let rawName' = (case map_of row ''product_name'' of Some v \<Rightarrow> trim v | None \<Rightarrow> [])
      in canonicalizeBrand_of_value (extractBrand rawName'))"

section \<open>Notions used by the statements\<close>

subsection \<open>The matcher without the fast skip\<close>

text \<open>
  The matcher as the specification words it: every candidate of \<^verbatim>\<open>productsB\<close> is
  compared, the candidate kept is the one of strictly highest confidence, and the first
  one seen wins a tie. The three definitions are \<open>scanCandidates\<close>, \<open>matchStep\<close> and
  \<open>matchProducts\<close> with the test \<^verbatim>\<open>confidence < reviewThreshold * 0.65\<close> taken out.
\<close>

fun scanCandidates_noskip ::
  "NormalizedProduct \<Rightarrow> BestMatch option \<Rightarrow> NormalizedProduct list \<Rightarrow> BestMatch option"
where
  "scanCandidates_noskip prodA bestMatch [] = bestMatch"
| "scanCandidates_noskip prodA bestMatch (prodB # rest) =
     (let scs = computeFeatureScores prodA prodB;
          conf = computeConfidence scs prodA prodB
      in if (case bestMatch of None \<Rightarrow> True | Some bm \<Rightarrow> js_gt conf (bm_confidence bm))
           then scanCandidates_noskip prodA
                  (Some \<lparr>bm_product = prodB, bm_confidence = conf, bm_scores = scs\<rparr>) rest
         else scanCandidates_noskip prodA bestMatch rest)"

definition matchStep_noskip ::
  "MatchOptions \<Rightarrow> NormalizedProduct list \<Rightarrow> MatchState \<Rightarrow> NormalizedProduct \<Rightarrow> MatchState"
where
  "matchStep_noskip resolvedOptions productsB st prodA =
     (let bestMatch = scanCandidates_noskip prodA None productsB;
          unmatched = st\<lparr>st_unmatchedA := st_unmatchedA st @ [summarizeProduct prodA]\<rparr>
      in case bestMatch of
           None \<Rightarrow> unmatched
         | Some bm \<Rightarrow>
             if js_lt (bm_confidence bm) (Fin (reviewThreshold resolvedOptions)) then unmatched
             else let d = (if js_ge (bm_confidence bm) (Fin (autoAcceptThreshold resolvedOptions))
                           then Auto else Review)
                  in st\<lparr>st_matches := st_matches st @
                          [\<lparr>productA = summarizeProduct prodA,
                            productB = summarizeProduct (bm_product bm),
                            confidence = round_to (bm_confidence bm) 2,
                            decision = d,
                            featureScores = mapScores (bm_scores bm)\<rparr>],
                        st_matchedBIds := insert (sourceId (bm_product bm)) (st_matchedBIds st)\<rparr>)"

definition matchProducts_noskip ::
  "NormalizedProduct list \<Rightarrow> NormalizedProduct list \<Rightarrow> PartialMatchOptions \<Rightarrow> Error + MatchResult"
where
  "matchProducts_noskip productsA productsB options =
     (let resolvedOptions = resolveOptions options
      in if reviewThreshold resolvedOptions > autoAcceptThreshold resolvedOptions
           then Inl (Error ''reviewThreshold must be <= autoAcceptThreshold'')
         else let st = foldl (matchStep_noskip resolvedOptions productsB)
                         \<lparr>st_matches = [], st_unmatchedA = [], st_matchedBIds = {}\<rparr> productsA;
                  unmatchedB' = map summarizeProduct
                                 (filter (\<lambda>p. sourceId p \<notin> st_matchedBIds st) productsB)
              in Inr \<lparr>matches = st_matches st,
                      unmatchedA = st_unmatchedA st,
                      unmatchedB = unmatchedB'\<rparr>)"

subsection \<open>Confidence of a pair and outcome of one turn\<close>

definition pairConfidence :: "NormalizedProduct \<Rightarrow> NormalizedProduct \<Rightarrow> number" where
  \<comment> \<open>what the inner loop computes for \<open>a\<close> and \<open>b\<close>\<close>
  "pairConfidence a b = computeConfidence (computeFeatureScores a b) a b"

definition matchRecordFor :: "MatchOptions \<Rightarrow> NormalizedProduct \<Rightarrow> NormalizedProduct \<Rightarrow> MatchRecord" where
  \<comment> \<open>the record pushed for \<open>a\<close> when \<open>b\<close> is its best candidate\<close>
  "matchRecordFor opts a b =
     \<lparr>productA = summarizeProduct a,
      productB = summarizeProduct b,
      confidence = round_to (pairConfidence a b) 2,
      decision = (if js_ge (pairConfidence a b) (Fin (autoAcceptThreshold opts))
                  then Auto else Review),
      featureScores = mapScores (computeFeatureScores a b)\<rparr>"

definition stepOutcome ::
  "MatchOptions \<Rightarrow> NormalizedProduct list \<Rightarrow> NormalizedProduct \<Rightarrow> (MatchRecord \<times> string) option"
where
  \<comment> \<open>what one turn of the outer loop adds: nothing to \<^verbatim>\<open>matches\<close>, or a record and
      the identifier it claims\<close>
  "stepOutcome opts productsB a =
     (case scanCandidates opts a None productsB of
        None \<Rightarrow> None
      | Some bm \<Rightarrow>
          if js_lt (bm_confidence bm) (Fin (reviewThreshold opts)) then None
          else Some (\<lparr>productA = summarizeProduct a,
                      productB = summarizeProduct (bm_product bm),
                      confidence = round_to (bm_confidence bm) 2,
                      decision = (if js_ge (bm_confidence bm) (Fin (autoAcceptThreshold opts))
                                  then Auto else Review),
                      featureScores = mapScores (bm_scores bm)\<rparr>,
                    sourceId (bm_product bm)))"

definition scanAgree :: "real \<Rightarrow> BestMatch option \<Rightarrow> BestMatch option \<Rightarrow> bool" where
  \<comment> \<open>how the inner loop with the skip (\<open>s1\<close>) and the one without (\<open>s2\<close>) relate
      under the floor \<open>t\<close>, as long as no confidence is \<^verbatim>\<open>NaN\<close>\<close>
  "scanAgree t s1 s2 =
     (case s1 of
        Some bm \<Rightarrow> s2 = Some bm \<and> js_le (Fin t) (bm_confidence bm)
      | None \<Rightarrow> (case s2 of None \<Rightarrow> True
                 | Some bm \<Rightarrow> js_lt (bm_confidence bm) (Fin t)
                               \<and> js_le (Fin 0) (bm_confidence bm)))"

subsection \<open>Finite numbers\<close>

definition finiteOrAbsent :: "number option \<Rightarrow> bool" where
  \<comment> \<open>\<^verbatim>\<open>undefined\<close>, or a number that is neither \<^verbatim>\<open>NaN\<close> nor an infinity\<close>
  "finiteOrAbsent v = (case v of None \<Rightarrow> True | Some (Fin r) \<Rightarrow> True | Some _ \<Rightarrow> False)"

definition finiteSizes :: "NormalizedProduct list \<Rightarrow> bool" where
  \<comment> \<open>no product of the list has an infinite size\<close>
  "finiteSizes ps = list_all (\<lambda>p. finiteOrAbsent (sizeOz p)) ps"

definition finiteScores :: "FeatureScores \<Rightarrow> bool" where
  "finiteScores s =
     list_all (\<lambda>x. finiteOrAbsent (Some x))
       [upc_score s, name_score s, brand_score s, size_score s, category_score s,
        price_score s, dietPenalty s]"

subsection \<open>Shapes of strings\<close>

definition isBrandSeparator :: "char \<Rightarrow> bool" where
  \<comment> \<open>the class \<^verbatim>\<open>[\s,]\<close> on which \<^verbatim>\<open>extractBrand\<close> splits\<close>
  "isBrandSeparator c = (isWhitespace c \<or> c = CHR '','')"

fun singleSpaced :: "string \<Rightarrow> bool" where
  \<comment> \<open>no two white-space characters in a row\<close>
  "singleSpaced (a # b # r) = (\<not> (isWhitespace a \<and> isWhitespace b) \<and> singleSpaced (b # r))"
| "singleSpaced r = True"

definition normalizedChars :: "string \<Rightarrow> bool" where
  \<comment> \<open>only \<^verbatim>\<open>[a-z0-9]\<close> and the space\<close>
  "normalizedChars s = list_all (\<lambda>c. isLowerAlnum c \<or> c = CHR '' '') s"

definition nameSteps :: "string \<Rightarrow> string" where
  \<comment> \<open>\<^verbatim>\<open>normalizeName\<close> up to its last two steps, the collapse of white space and the trim\<close>
  "nameSteps v =
     replaceAll (matchChar (\<lambda>c. \<not> isLowerAlnum c \<and> \<not> isWhitespace c)) '' ''
       (replaceAll (matchChar (\<lambda>c. c = CHR ''-'')) '' ''
         (replaceAll matchOzDot ''oz''
           (replaceAll matchOunces ''oz''
             (replaceAll matchFlOz ''oz'' (toLowerCase v)))))"

subsection \<open>The aggregate as a weighted average\<close>

text \<open>
  The availability-weighted average in the words of the specification: the sum of
  score times weight over the available attributes, divided by the sum of the weights
  of the available attributes, minus the diet penalty times 0.05, clamped to the unit
  interval, and 0 when no attribute is available. The six flags say which of
  identifier, name, brand, size, category and price are available.
\<close>

definition weightedConfidence ::
  "bool \<Rightarrow> bool \<Rightarrow> bool \<Rightarrow> bool \<Rightarrow> bool \<Rightarrow> bool \<Rightarrow> FeatureScores \<Rightarrow> number" where
  "weightedConfidence idOk nameOk brandOk sizeOk categoryOk priceOk s =
     (let weighted = foldl js_add (Fin 0)
                       [if idOk then js_mul (upc_score s) (Fin 0.25) else Fin 0,
                        if nameOk then js_mul (name_score s) (Fin 0.25) else Fin 0,
                        if brandOk then js_mul (brand_score s) (Fin 0.2) else Fin 0,
                        if sizeOk then js_mul (size_score s) (Fin 0.2) else Fin 0,
                        if categoryOk then js_mul (category_score s) (Fin 0.05) else Fin 0,
                        if priceOk then js_mul (price_score s) (Fin 0.05) else Fin 0];
          weights = foldl js_add (Fin 0)
                      [if idOk then Fin 0.25 else Fin 0,
                       if nameOk then Fin 0.25 else Fin 0,
                       if brandOk then Fin 0.2 else Fin 0,
                       if sizeOk then Fin 0.2 else Fin 0,
                       if categoryOk then Fin 0.05 else Fin 0,
                       if priceOk then Fin 0.05 else Fin 0]
      in if \<not> (idOk \<or> nameOk \<or> brandOk \<or> sizeOk \<or> categoryOk \<or> priceOk) then Fin 0
         else clamp (js_sub (js_div weighted weights) (js_mul (dietPenalty s) (Fin 0.05)))
                (Fin 0) (Fin 1))"

definition scannableCode :: "string option \<Rightarrow> bool" where
  \<comment> \<open>digits only, 8 to 14 characters long\<close>
  "scannableCode v =
     (case v of
        None \<Rightarrow> False
      | Some s \<Rightarrow> list_all isDigit s \<and> 8 \<le> length s \<and> length s \<le> 14)"

definition specConfidence :: "FeatureScores \<Rightarrow> NormalizedProduct \<Rightarrow> NormalizedProduct \<Rightarrow> number" where
  \<comment> \<open>the availability of the specification: brand, size and category need both sides
      non-absent, price both numeric, the name is always available\<close>
  "specConfidence s a b =
     weightedConfidence
       (scannableCode (scancode a) \<and> scannableCode (scancode b))
       True
       (brand a \<noteq> None \<and> brand b \<noteq> None)
       (sizeOz a \<noteq> None \<and> sizeOz b \<noteq> None)
       (category a \<noteq> None \<and> category b \<noteq> None)
       (price a \<noteq> None \<and> price b \<noteq> None)
       s"

subsection \<open>Example products\<close>

definition exampleProduct :: "Source \<Rightarrow> string \<Rightarrow> string \<Rightarrow> string list \<Rightarrow> NormalizedProduct" where
  \<comment> \<open>a product that carries a name and its tokens and nothing else\<close>
  "exampleProduct src ident nm toks =
     \<lparr>source = src, sourceId = ident, rawName = nm, normalizedName = nm, tokens = toks,
      brand = None, sizeOz = None, sizeLabel = None, price = None, category = None,
      isDiet = False, scancode = None, features = [], raw = []\<rparr>"

definition givenOptions :: "real \<Rightarrow> real \<Rightarrow> PartialMatchOptions" where
  \<comment> \<open>the options object \<^verbatim>\<open>{ autoAcceptThreshold, reviewThreshold }\<close>\<close>
  "givenOptions auto review =
     \<lparr>autoAcceptThreshold_given = Some auto, reviewThreshold_given = Some review\<rparr>"

definition exA :: NormalizedProduct where
  "exA = exampleProduct S365 ''a1'' ''x y'' [''x'', ''y'']"

definition exA2 :: NormalizedProduct where
  "exA2 = exampleProduct S365 ''a2'' ''x y'' [''x'', ''y'']"

definition exQ :: NormalizedProduct where
  "exQ = exampleProduct S365 ''a3'' ''q'' [''q'']"

definition exB :: NormalizedProduct where
  "exB = exampleProduct Haha ''b1'' ''x y z'' [''x'', ''y'', ''z'']"

definition exB2 :: NormalizedProduct where
  "exB2 = exampleProduct Haha ''b2'' ''x y'' [''x'', ''y'']"

definition exSized :: NormalizedProduct where
  \<comment> \<open>a product of 12 ounces\<close>
  "exSized = (exampleProduct S365 ''a5'' ''x'' [''x''])\<lparr>sizeOz := Some (Fin 12)\<rparr>"

definition exHuge :: NormalizedProduct where
  \<comment> \<open>a product whose size text has 309 digits or more, which \<^verbatim>\<open>parseFloat\<close> reads as
      \<^verbatim>\<open>Infinity\<close>\<close>
  "exHuge = (exampleProduct Haha ''b3'' ''q'' [''q''])\<lparr>sizeOz := Some PosInf\<rparr>"

definition exZeroSize :: NormalizedProduct where
  \<comment> \<open>a product whose size and price are both present and 0\<close>
  "exZeroSize = (exampleProduct S365 ''a4'' ''water 0oz'' [''water'', ''0oz''])
                  \<lparr>sizeOz := Some (Fin 0), sizeLabel := Some ''0oz'', price := Some (Fin 0)\<rparr>"

definition exFull :: NormalizedProduct where
  \<comment> \<open>a product with every attribute\<close>
  "exFull = \<lparr>source = S365, sourceId = ''012345678905'', rawName = ''Coke 12oz'',
             normalizedName = ''coke 12oz'', tokens = [''coca cola'', ''12oz''],
             brand = Some ''coca cola'', sizeOz = Some (Fin 12), sizeLabel = Some ''12oz'',
             price = Some (Fin 1.5), category = Some ''Soda'', isDiet = False,
             scancode = Some ''012345678905'', features = [(''sizeMatchText'', Some ''12oz'')],
             raw = []\<rparr>"

definition exNameless :: NormalizedProduct where
  \<comment> \<open>a product of an empty name, with a scan code and a price\<close>
  "exNameless = (exampleProduct S365 ''012345678905'' [] [])
                  \<lparr>scancode := Some ''012345678905'', price := Some (Fin 1.5)\<rparr>"

section \<open>Numbers\<close>

lemma js_add_zero: "js_add x (Fin 0) = x" "js_add (Fin 0) x = x"
  by (cases x; simp)+

lemma js_le_Fin: "js_le (Fin x) (Fin y) \<longleftrightarrow> x \<le> y"
  by (auto simp: js_le_def js_eq_def)

lemma js_ge_Fin: "js_ge (Fin x) (Fin y) \<longleftrightarrow> y \<le> x"
  by (simp add: js_ge_def js_le_Fin)

lemma js_gt_Fin: "js_gt (Fin x) (Fin y) \<longleftrightarrow> y < x"
  by (simp add: js_gt_def)

lemma js_eq_Fin: "js_eq (Fin x) (Fin y) \<longleftrightarrow> x = y"
  by (simp add: js_eq_def)

lemma js_lt_NaN: "\<not> js_lt NaN y" "\<not> js_lt x NaN"
  by (cases x; simp)+

lemma js_le_defined: "js_le x y \<Longrightarrow> x \<noteq> NaN \<and> y \<noteq> NaN"
  by (cases x; cases y; simp add: js_le_def js_eq_def)

lemma js_le_refl: "x \<noteq> NaN \<Longrightarrow> js_le x x"
  by (simp add: js_le_def js_eq_def)

lemma js_le_trans: "js_le x y \<Longrightarrow> js_le y z \<Longrightarrow> js_le x z"
  by (cases x; cases y; cases z; auto simp: js_le_def js_eq_def)

lemma js_lt_le_trans: "js_lt x y \<Longrightarrow> js_le y z \<Longrightarrow> js_lt x z"
  by (cases x; cases y; cases z; auto simp: js_le_def js_eq_def)

lemma js_le_lt_trans: "js_le x y \<Longrightarrow> js_lt y z \<Longrightarrow> js_lt x z"
  by (cases x; cases y; cases z; auto simp: js_le_def js_eq_def)

lemma js_lt_imp_le: "js_lt x y \<Longrightarrow> js_le x y"
  by (simp add: js_le_def)

lemma js_not_lt: "x \<noteq> NaN \<Longrightarrow> y \<noteq> NaN \<Longrightarrow> \<not> js_lt x y \<longleftrightarrow> js_le y x"
  by (cases x; cases y; auto simp add: js_le_def js_eq_def)

lemma clamp_unit:
  "clamp v (Fin 0) (Fin 1) =
     (case v of Fin r \<Rightarrow> Fin (min 1 (max 0 r)) | PosInf \<Rightarrow> Fin 1 | NegInf \<Rightarrow> Fin 0
      | NaN \<Rightarrow> NaN)"
  by (cases v) (auto simp: clamp_def Math_max_def Math_min_def)

lemma clamp_unit_cases:
  "clamp v (Fin 0) (Fin 1) = NaN \<or> (\<exists>r. clamp v (Fin 0) (Fin 1) = Fin r \<and> 0 \<le> r \<and> r \<le> 1)"
  by (cases v) (auto simp: clamp_unit)

section \<open>Configuration errors\<close>

text \<open>
  Claim C8. Whatever the two product lists are, \<^verbatim>\<open>matchProducts\<close> fails with the
  configuration error when the resolved \<^verbatim>\<open>reviewThreshold\<close> exceeds the resolved
  \<^verbatim>\<open>autoAcceptThreshold\<close>: the outcome is the error alone, no \<^verbatim>\<open>MatchResult\<close>, and it
  does not depend on the products. In every other case it returns a \<^verbatim>\<open>MatchResult\<close>.
\<close>

theorem matchProducts_configuration_error:
  "(reviewThreshold (resolveOptions options) > autoAcceptThreshold (resolveOptions options)
      \<longrightarrow> matchProducts productsA productsB options
            = Inl (Error ''reviewThreshold must be <= autoAcceptThreshold''))
   \<and> (\<not> reviewThreshold (resolveOptions options) > autoAcceptThreshold (resolveOptions options)
      \<longrightarrow> (\<exists>res. matchProducts productsA productsB options = Inr res))"
  by (simp add: matchProducts_def Let_def)

theorem matchProducts_configuration_error_witness:
  "reviewThreshold (resolveOptions (givenOptions 0.5 0.9))
     > autoAcceptThreshold (resolveOptions (givenOptions 0.5 0.9))
   \<and> matchProducts [exampleProduct S365 ''a1'' ''x y'' [''x'', ''y'']]
                    [exampleProduct Haha ''b1'' ''x y z'' [''x'', ''y'', ''z'']]
                    (givenOptions 0.5 0.9)
       = Inl (Error ''reviewThreshold must be <= autoAcceptThreshold'')
   \<and> \<not> reviewThreshold (resolveOptions (givenOptions 0.82 0.6))
         > autoAcceptThreshold (resolveOptions (givenOptions 0.82 0.6))
   \<and> (\<exists>res. matchProducts [exampleProduct S365 ''a1'' ''x y'' [''x'', ''y'']]
                           [exampleProduct Haha ''b1'' ''x y z'' [''x'', ''y'', ''z'']]
                           (givenOptions 0.82 0.6) = Inr res)"
proof -
  have bad: "reviewThreshold (resolveOptions (givenOptions 0.5 0.9))
               > autoAcceptThreshold (resolveOptions (givenOptions 0.5 0.9))"
    by (simp add: resolveOptions_def givenOptions_def)
  have good: "\<not> reviewThreshold (resolveOptions (givenOptions 0.82 0.6))
                  > autoAcceptThreshold (resolveOptions (givenOptions 0.82 0.6))"
    by (simp add: resolveOptions_def givenOptions_def)
  from bad good
    matchProducts_configuration_error
      [of "givenOptions 0.5 0.9" "[exampleProduct S365 ''a1'' ''x y'' [''x'', ''y'']]"
          "[exampleProduct Haha ''b1'' ''x y z'' [''x'', ''y'', ''z'']]"]
    matchProducts_configuration_error
      [of "givenOptions 0.82 0.6" "[exampleProduct S365 ''a1'' ''x y'' [''x'', ''y'']]"
          "[exampleProduct Haha ''b1'' ''x y z'' [''x'', ''y'', ''z'']]"]
  show ?thesis by blast
qed

section \<open>The aggregate confidence\<close>

text \<open>
  The confidence is \<^verbatim>\<open>NaN\<close> or a finite number of the unit interval, and it is the second
  whenever the scores are finite. Of the scores of \<^verbatim>\<open>computeFeatureScores\<close> only the size
  score can be other than finite, and only when a size is infinite.
\<close>

lemma computeConfidence_cases:
  "computeConfidence s a b = NaN
   \<or> (\<exists>r. computeConfidence s a b = Fin r \<and> 0 \<le> r \<and> r \<le> 1)"
  using clamp_unit_cases by (simp add: computeConfidence_def Let_def)

lemma pairConfidence_cases:
  "pairConfidence a b = NaN \<or> (\<exists>r. pairConfidence a b = Fin r \<and> 0 \<le> r \<and> r \<le> 1)"
  unfolding pairConfidence_def by (rule computeConfidence_cases)

lemma pairConfidence_nonneg: "pairConfidence a b \<noteq> NaN \<Longrightarrow> js_le (Fin 0) (pairConfidence a b)"
  using pairConfidence_cases [of a b] by (auto simp: js_le_Fin)

lemma isLikelyUPC_scannable: "isLikelyUPC v = scannableCode v"
  by (cases v) (auto simp: isLikelyUPC_def scannableCode_def)

lemma computeConfidence_closed_form:
  "computeConfidence s a b =
     weightedConfidence
       (scannableCode (scancode a) \<and> scannableCode (scancode b))
       True
       (truthyString (brand a) \<and> truthyString (brand b))
       (truthyNumber (sizeOz a) \<and> truthyNumber (sizeOz b))
       (truthyString (category a) \<and> truthyString (category b))
       (price a \<noteq> None \<and> price b \<noteq> None)
       s"
proof -
  define u where "u = (scannableCode (scancode a) \<and> scannableCode (scancode b))"
  define br where "br = (truthyString (brand a) \<and> truthyString (brand b))"
  define sz where "sz = (truthyNumber (sizeOz a) \<and> truthyNumber (sizeOz b))"
  define ca where "ca = (truthyString (category a) \<and> truthyString (category b))"
  define pr where "pr = (price a \<noteq> None \<and> price b \<noteq> None)"
  define ws where "ws = [if u then Fin 0.25 else Fin 0, Fin 0.25, if br then Fin 0.2 else Fin 0,
        if sz then Fin 0.2 else Fin 0, if ca then Fin 0.05 else Fin 0,
        if pr then Fin 0.05 else Fin 0]"
  have cs: "components s a b =
     [\<lparr>score = upc_score s, weight = Fin 0.25, available = u\<rparr>,
      \<lparr>score = name_score s, weight = Fin 0.25, available = True\<rparr>,
      \<lparr>score = brand_score s, weight = Fin 0.2, available = br\<rparr>,
      \<lparr>score = size_score s, weight = Fin 0.2, available = sz\<rparr>,
      \<lparr>score = category_score s, weight = Fin 0.05, available = ca\<rparr>,
      \<lparr>score = price_score s, weight = Fin 0.05, available = pr\<rparr>]"
    by (simp add: components_def u_def br_def sz_def ca_def pr_def isLikelyUPC_scannable)
  have wsum: "foldl (\<lambda>sum c. if available c then js_add sum (weight c) else sum) (Fin 0)
        (components s a b)
      = foldl js_add (Fin 0) ws"
    unfolding cs ws_def by (simp add: js_add_zero)
  have pos: "\<not> js_eq (foldl js_add (Fin 0) ws) (Fin 0)"
    unfolding ws_def by (simp add: js_eq_Fin)
  have wscore: "foldl (\<lambda>sum c. if \<not> available c then sum
                                else js_add sum (js_mul (score c) (weight c))) (Fin 0)
        (components s a b)
      = foldl js_add (Fin 0)
          [if u then js_mul (upc_score s) (Fin 0.25) else Fin 0,
           js_mul (name_score s) (Fin 0.25),
           if br then js_mul (brand_score s) (Fin 0.2) else Fin 0,
           if sz then js_mul (size_score s) (Fin 0.2) else Fin 0,
           if ca then js_mul (category_score s) (Fin 0.05) else Fin 0,
           if pr then js_mul (price_score s) (Fin 0.05) else Fin 0]"
    unfolding cs by (simp add: js_add_zero)
  show ?thesis
    unfolding computeConfidence_def Let_def wsum wscore
      u_def [symmetric] br_def [symmetric] sz_def [symmetric] ca_def [symmetric]
      pr_def [symmetric] weightedConfidence_def
    using pos unfolding ws_def by simp
qed

lemma finiteOrAbsent_Some: "finiteOrAbsent (Some x) \<longleftrightarrow> (\<exists>r. x = Fin r)"
  by (cases x) (simp_all add: finiteOrAbsent_def)

lemma finiteScoresD:
  assumes "finiteScores s"
  obtains u n br z c p d where "upc_score s = Fin u" "name_score s = Fin n"
    "brand_score s = Fin br" "size_score s = Fin z" "category_score s = Fin c"
    "price_score s = Fin p" "dietPenalty s = Fin d"
  using assms unfolding finiteScores_def finiteOrAbsent_Some by auto

lemma weightedConfidence_finite:
  assumes "finiteScores s"
  shows "\<exists>r. weightedConfidence idOk nameOk brandOk sizeOk categoryOk priceOk s = Fin r
              \<and> 0 \<le> r \<and> r \<le> 1"
proof -
  from assms obtain u n br z c p d where f: "upc_score s = Fin u" "name_score s = Fin n"
    "brand_score s = Fin br" "size_score s = Fin z" "category_score s = Fin c"
    "price_score s = Fin p" "dietPenalty s = Fin d"
    by (rule finiteScoresD)
  show ?thesis
    unfolding weightedConfidence_def Let_def f
    by (simp add: clamp_unit js_sub_def)
qed

lemma computeConfidence_finite:
  assumes "finiteScores s"
  shows "\<exists>r. computeConfidence s a b = Fin r \<and> 0 \<le> r \<and> r \<le> 1"
  unfolding computeConfidence_closed_form using assms by (rule weightedConfidence_finite)

lemma finiteOrAbsent_Fin: "finiteOrAbsent (Some (Fin r))"
  by (simp add: finiteOrAbsent_def)

lemma scoreNumericSimilarity_finite:
  "finiteOrAbsent (Some (scoreNumericSimilarity x y (Fin 0.25)))"
proof (cases x)
  case None
  then show ?thesis by (simp add: scoreNumericSimilarity_def finiteOrAbsent_Fin)
next
  case sx: (Some p)
  show ?thesis
  proof (cases y)
    case None
    with sx show ?thesis by (simp add: scoreNumericSimilarity_def finiteOrAbsent_Fin)
  next
    case (Some q)
    with sx show ?thesis
      by (cases p; cases q)
         (auto simp: scoreNumericSimilarity_def Let_def js_eq_def js_le_def js_sub_def
            infinity_of_sign_def finiteOrAbsent_Fin)
  qed
qed

lemma scoreSize_finite:
  assumes "finiteOrAbsent x" and "finiteOrAbsent y"
  shows "finiteOrAbsent (Some (scoreSize x y))"
proof (cases "truthyNumber x \<and> truthyNumber y")
  case False
  then show ?thesis by (auto simp: scoreSize_def finiteOrAbsent_Fin)
next
  case True
  with assms obtain p q where "x = Some (Fin p)" "y = Some (Fin q)" "p \<noteq> 0" "q \<noteq> 0"
    by (cases x; cases y) (auto simp: truthyNumber_def finiteOrAbsent_Some)
  then show ?thesis
    by (simp add: scoreSize_def truthyNumber_def Let_def js_sub_def Math_max_def clamp_unit
        max_def finiteOrAbsent_Fin)
qed

lemma lengths_zero: "real (length xs) + real (length ys) = 0 \<longleftrightarrow> xs = [] \<and> ys = []"
  by (simp only: of_nat_add [symmetric] of_nat_eq_0_iff) simp

lemma scoreNameSimilarity_finite: "finiteOrAbsent (Some (scoreNameSimilarity a b))"
proof -
  have "\<exists>t. scoreNameTokens (tokens a) (tokens b) = Fin t"
    by (simp add: scoreNameTokens_def Let_def)
  then obtain t where t: "scoreNameTokens (tokens a) (tokens b) = Fin t" ..
  have "\<exists>g. scoreCharacterBigram (normalizedName a) (normalizedName b) = Fin g"
    by (simp add: scoreCharacterBigram_def Let_def lengths_zero)
  then obtain g where g: "scoreCharacterBigram (normalizedName a) (normalizedName b) = Fin g" ..
  show ?thesis
    unfolding scoreNameSimilarity_def Let_def t g by (simp add: Math_max_def finiteOrAbsent_Fin)
qed

lemma computeFeatureScores_finite:
  assumes "finiteOrAbsent (sizeOz a)" and "finiteOrAbsent (sizeOz b)"
  shows "finiteScores (computeFeatureScores a b)"
proof -
  have "finiteOrAbsent (Some (scoreUPC a b))"
    by (simp add: scoreUPC_def finiteOrAbsent_Fin)
  moreover have "finiteOrAbsent (Some (scoreBrand (brand a) (brand b)))"
    by (simp add: scoreBrand_def Let_def finiteOrAbsent_Fin)
  moreover have "finiteOrAbsent (Some (scoreCategory (category a) (category b)))"
    by (simp add: scoreCategory_def Let_def finiteOrAbsent_Fin split: option.splits)
  moreover have "finiteOrAbsent (Some (scoreDietPenalty (isDiet a) (isDiet b)))"
    by (simp add: scoreDietPenalty_def finiteOrAbsent_Fin)
  moreover note scoreNameSimilarity_finite [of a b] scoreSize_finite [OF assms]
    scoreNumericSimilarity_finite [of "price a" "price b"]
  ultimately show ?thesis
    unfolding finiteScores_def computeFeatureScores_def by simp
qed

lemma pairConfidence_finite:
  assumes "finiteOrAbsent (sizeOz a)" and "finiteOrAbsent (sizeOz b)"
  shows "pairConfidence a b \<noteq> NaN"
  using computeConfidence_finite [OF computeFeatureScores_finite [OF assms], of a b]
  by (auto simp: pairConfidence_def)

lemma components_size:
  "score (components s a b ! 3) = size_score s
   \<and> available (components s a b ! 3)
       = (truthyNumber (sizeOz a) \<and> truthyNumber (sizeOz b))"
  by (simp add: components_def)

lemma components_price:
  "score (components s a b ! 5) = price_score s
   \<and> available (components s a b ! 5) = (price a \<noteq> None \<and> price b \<noteq> None)"
  by (simp add: components_def)

lemma weightedConfidence_without_size:
  "weightedConfidence u n br False ca pr (s\<lparr>size_score := v\<rparr>)
     = weightedConfidence u n br False ca pr s"
  by (simp add: weightedConfidence_def)

text \<open>
  Claim C3, as amended. \<^verbatim>\<open>computeConfidence\<close> is the availability-weighted average with
  the weights identifier 0.25, name 0.25, brand 0.20, size 0.20, category 0.05 and
  price 0.05, minus \<^verbatim>\<open>dietPenalty\<close> times 0.05, passed through \<^verbatim>\<open>clamp\<close> with the bounds 0
  and 1, where: the identifier is available when both scan codes are strings of 8 to 14
  digits; brand and category when both sides are present and not the empty string; size
  when both sides are present and neither 0 nor \<^verbatim>\<open>NaN\<close>; price when both sides are
  present; the name always. The name being always available, the case of no available
  attribute does not arise. The confidence lies in the unit interval when the scores are
  finite, and the confidence of a pair of products does when neither size is infinite.
  What the confidence is over a score that is not finite is left open here.
\<close>

theorem computeConfidence_weighted_average:
  "computeConfidence s a b =
     weightedConfidence
       (scannableCode (scancode a) \<and> scannableCode (scancode b))
       True
       (truthyString (brand a) \<and> truthyString (brand b))
       (truthyNumber (sizeOz a) \<and> truthyNumber (sizeOz b))
       (truthyString (category a) \<and> truthyString (category b))
       (price a \<noteq> None \<and> price b \<noteq> None)
       s
   \<and> (finiteScores s \<longrightarrow>
        js_le (Fin 0) (computeConfidence s a b) \<and> js_le (computeConfidence s a b) (Fin 1))
   \<and> (finiteOrAbsent (sizeOz a) \<and> finiteOrAbsent (sizeOz b) \<longrightarrow>
        js_le (Fin 0) (pairConfidence a b) \<and> js_le (pairConfidence a b) (Fin 1))"
proof (intro conjI impI)
  show "computeConfidence s a b =
     weightedConfidence
       (scannableCode (scancode a) \<and> scannableCode (scancode b))
       True
       (truthyString (brand a) \<and> truthyString (brand b))
       (truthyNumber (sizeOz a) \<and> truthyNumber (sizeOz b))
       (truthyString (category a) \<and> truthyString (category b))
       (price a \<noteq> None \<and> price b \<noteq> None)
       s"
    by (rule computeConfidence_closed_form)
next
  assume "finiteScores s"
  from computeConfidence_finite [OF this, of a b]
  show "js_le (Fin 0) (computeConfidence s a b)" "js_le (computeConfidence s a b) (Fin 1)"
    by (auto simp: js_le_Fin)
next
  assume "finiteOrAbsent (sizeOz a) \<and> finiteOrAbsent (sizeOz b)"
  then have "finiteScores (computeFeatureScores a b)"
    by (simp add: computeFeatureScores_finite)
  from computeConfidence_finite [OF this, of a b]
  show "js_le (Fin 0) (pairConfidence a b)" "js_le (pairConfidence a b) (Fin 1)"
    by (auto simp: js_le_Fin pairConfidence_def)
qed

theorem computeConfidence_weighted_average_witness:
  "finiteScores (computeFeatureScores exSized exFull)
   \<and> finiteOrAbsent (sizeOz exSized) \<and> finiteOrAbsent (sizeOz exFull)
   \<and> computeConfidence (computeFeatureScores exSized exFull) exSized exFull
       = weightedConfidence False True False True False False
           (computeFeatureScores exSized exFull)
   \<and> js_le (Fin 0) (computeConfidence (computeFeatureScores exSized exFull) exSized exFull)
   \<and> js_le (computeConfidence (computeFeatureScores exSized exFull) exSized exFull) (Fin 1)
   \<and> js_le (Fin 0) (pairConfidence exSized exFull)
   \<and> js_le (pairConfidence exSized exFull) (Fin 1)"
proof -
  have fin: "finiteScores (computeFeatureScores exSized exFull)"
    "finiteOrAbsent (sizeOz exSized)" "finiteOrAbsent (sizeOz exFull)"
    by code_simp+
  have flags: "weightedConfidence
       (scannableCode (scancode exSized) \<and> scannableCode (scancode exFull))
       True
       (truthyString (brand exSized) \<and> truthyString (brand exFull))
       (truthyNumber (sizeOz exSized) \<and> truthyNumber (sizeOz exFull))
       (truthyString (category exSized) \<and> truthyString (category exFull))
       (price exSized \<noteq> None \<and> price exFull \<noteq> None)
       (computeFeatureScores exSized exFull)
     = weightedConfidence False True False True False False
        (computeFeatureScores exSized exFull)"
    by (simp add: exSized_def exFull_def exampleProduct_def scannableCode_def truthyString_def
        truthyNumber_def)
  note avg =
    computeConfidence_weighted_average [of "computeFeatureScores exSized exFull" exSized exFull]
  from avg have "computeConfidence (computeFeatureScores exSized exFull) exSized exFull
       = weightedConfidence False True False True False False
           (computeFeatureScores exSized exFull)"
    unfolding flags by (rule conjunct1)
  moreover from avg fin(1)
  have "js_le (Fin 0) (computeConfidence (computeFeatureScores exSized exFull) exSized exFull)
        \<and> js_le (computeConfidence (computeFeatureScores exSized exFull) exSized exFull) (Fin 1)"
    by blast
  moreover from avg fin(2,3)
  have "js_le (Fin 0) (pairConfidence exSized exFull)
        \<and> js_le (pairConfidence exSized exFull) (Fin 1)"
    by blast
  ultimately show ?thesis using fin by blast
qed

text \<open>
  The claim as stated, with size available as soon as both sides are non-absent, fails on
  a product whose size is present and 0: the code leaves the size out and gives 1, the
  average of the claim counts it with its score 0 and gives 3/5.
\<close>

theorem computeConfidence_present_zero_size_counterexample:
  "computeConfidence (computeFeatureScores exZeroSize exZeroSize) exZeroSize exZeroSize = Fin 1
   \<and> specConfidence (computeFeatureScores exZeroSize exZeroSize) exZeroSize exZeroSize
       = Fin (3 / 5)
   \<and> sizeOz exZeroSize = Some (Fin 0)"
  by code_simp

text \<open>
  Against a product of infinite size the size score is \<^verbatim>\<open>NaN\<close>, the size counts as
  available, and \<^verbatim>\<open>Math.min\<close> and \<^verbatim>\<open>Math.max\<close> pass the \<^verbatim>\<open>NaN\<close> through \<^verbatim>\<open>clamp\<close>.
\<close>

lemma computeConfidence_infinite_size_example:
  "sizeOz exHuge = Some PosInf
   \<and> size_score (computeFeatureScores exSized exHuge) = NaN
   \<and> computeConfidence (computeFeatureScores exSized exHuge) exSized exHuge = NaN"
  by code_simp

text \<open>
  Claim C9. When the size of either side is exactly 0, \<^verbatim>\<open>scoreSize\<close> returns 0 and
  \<^verbatim>\<open>computeConfidence\<close> treats the size as unavailable: its component is not available,
  the confidence is the weighted average without the size in the numerator and in the
  denominator, so it does not depend on the size score, and the scores and the
  confidence are those of the same pair with that size absent. A price of exactly 0 on
  one side, the other side being priced, leaves the price component available.
\<close>

theorem zero_size_is_unavailable:
  "(sizeOz a = Some (Fin 0) \<or> sizeOz b = Some (Fin 0) \<longrightarrow>
      scoreSize (sizeOz a) (sizeOz b) = Fin 0
      \<and> score (components s a b ! 3) = size_score s
      \<and> \<not> available (components s a b ! 3)
      \<and> computeConfidence s a b
          = weightedConfidence
              (scannableCode (scancode a) \<and> scannableCode (scancode b))
              True
              (truthyString (brand a) \<and> truthyString (brand b))
              False
              (truthyString (category a) \<and> truthyString (category b))
              (price a \<noteq> None \<and> price b \<noteq> None)
              s
      \<and> computeConfidence (s\<lparr>size_score := v\<rparr>) a b = computeConfidence s a b)
   \<and> (sizeOz a = Some (Fin 0) \<longrightarrow>
      computeFeatureScores (a\<lparr>sizeOz := None\<rparr>) b = computeFeatureScores a b
      \<and> computeConfidence s (a\<lparr>sizeOz := None\<rparr>) b = computeConfidence s a b)
   \<and> (sizeOz b = Some (Fin 0) \<longrightarrow>
      computeFeatureScores a (b\<lparr>sizeOz := None\<rparr>) = computeFeatureScores a b
      \<and> computeConfidence s a (b\<lparr>sizeOz := None\<rparr>) = computeConfidence s a b)
   \<and> ((price a = Some (Fin 0) \<and> price b \<noteq> None) \<or> (price a \<noteq> None \<and> price b = Some (Fin 0))
      \<longrightarrow> score (components s a b ! 5) = price_score s
          \<and> available (components s a b ! 5))"
proof (intro conjI impI)
  assume z: "sizeOz a = Some (Fin 0) \<or> sizeOz b = Some (Fin 0)"
  then have un: "(truthyNumber (sizeOz a) \<and> truthyNumber (sizeOz b)) = False"
    by (auto simp: truthyNumber_def)
  from un show "scoreSize (sizeOz a) (sizeOz b) = Fin 0"
    by (auto simp: scoreSize_def)
  show "score (components s a b ! 3) = size_score s"
    by (simp add: components_size)
  show "\<not> available (components s a b ! 3)"
    unfolding components_size [THEN conjunct2] un by simp
  show "computeConfidence s a b
          = weightedConfidence
              (scannableCode (scancode a) \<and> scannableCode (scancode b))
              True
              (truthyString (brand a) \<and> truthyString (brand b))
              False
              (truthyString (category a) \<and> truthyString (category b))
              (price a \<noteq> None \<and> price b \<noteq> None)
              s"
    unfolding computeConfidence_closed_form un by (rule refl)
  show "computeConfidence (s\<lparr>size_score := v\<rparr>) a b = computeConfidence s a b"
    unfolding computeConfidence_closed_form un by (rule weightedConfidence_without_size)
next
  assume z: "sizeOz a = Some (Fin 0)"
  then show "computeFeatureScores (a\<lparr>sizeOz := None\<rparr>) b = computeFeatureScores a b"
    by (simp add: computeFeatureScores_def scoreSize_def scoreUPC_def scoreNameSimilarity_def
        truthyNumber_def)
  from z show "computeConfidence s (a\<lparr>sizeOz := None\<rparr>) b = computeConfidence s a b"
    by (simp add: computeConfidence_closed_form truthyNumber_def)
next
  assume z: "sizeOz b = Some (Fin 0)"
  then show "computeFeatureScores a (b\<lparr>sizeOz := None\<rparr>) = computeFeatureScores a b"
    by (simp add: computeFeatureScores_def scoreSize_def scoreUPC_def scoreNameSimilarity_def
        truthyNumber_def)
  from z show "computeConfidence s a (b\<lparr>sizeOz := None\<rparr>) = computeConfidence s a b"
    by (simp add: computeConfidence_closed_form truthyNumber_def)
next
  assume "(price a = Some (Fin 0) \<and> price b \<noteq> None) \<or> (price a \<noteq> None \<and> price b = Some (Fin 0))"
  then show "available (components s a b ! 5)"
    by (auto simp: components_price)
  show "score (components s a b ! 5) = price_score s"
    by (simp add: components_price)
qed

theorem zero_size_is_unavailable_witness:
  "sizeOz exZeroSize = Some (Fin 0) \<and> price exZeroSize = Some (Fin 0) \<and> price exFull \<noteq> None
   \<and> scoreSize (sizeOz exZeroSize) (sizeOz exFull) = Fin 0
   \<and> \<not> available (components (computeFeatureScores exZeroSize exFull) exZeroSize exFull ! 3)
   \<and> available (components (computeFeatureScores exZeroSize exFull) exZeroSize exFull ! 5)
   \<and> computeFeatureScores (exZeroSize\<lparr>sizeOz := None\<rparr>) exFull
       = computeFeatureScores exZeroSize exFull
   \<and> computeConfidence (computeFeatureScores exZeroSize exFull)
         (exZeroSize\<lparr>sizeOz := None\<rparr>) exFull
       = computeConfidence (computeFeatureScores exZeroSize exFull) exZeroSize exFull"
proof -
  have h: "sizeOz exZeroSize = Some (Fin 0)" "price exZeroSize = Some (Fin 0)"
    "price exFull \<noteq> None"
    by (simp_all add: exZeroSize_def exFull_def exampleProduct_def)
  from h zero_size_is_unavailable
           [of exZeroSize exFull "computeFeatureScores exZeroSize exFull" "Fin 0"]
  show ?thesis by blast
qed

section \<open>The two loops of the matcher\<close>

subsection \<open>The inner loop\<close>

lemma scanAgree_step:
  assumes "scanAgree (reviewThreshold opts * 0.65) s1 s2"
      and "\<forall>b\<in>set bs. pairConfidence a b \<noteq> NaN"
  shows "scanAgree (reviewThreshold opts * 0.65)
           (scanCandidates opts a s1 bs) (scanCandidates_noskip a s2 bs)"
  using assms
proof (induction bs arbitrary: s1 s2)
  case Nil
  then show ?case by simp
next
  case (Cons b bs)
  define c where "c = computeConfidence (computeFeatureScores a b) a b"
  define new where
    "new = \<lparr>bm_product = b, bm_confidence = c, bm_scores = computeFeatureScores a b\<rparr>"
  define t where "t = reviewThreshold opts * 0.65"
  define s1' where
    "s1' = (if js_lt c (Fin t) then s1
            else if (case s1 of None \<Rightarrow> True | Some bm \<Rightarrow> js_gt c (bm_confidence bm))
              then Some new else s1)"
  define s2' where
    "s2' = (if (case s2 of None \<Rightarrow> True | Some bm \<Rightarrow> js_gt c (bm_confidence bm))
              then Some new else s2)"
  from Cons.prems(2) have "pairConfidence a b \<noteq> NaN" by simp
  with pairConfidence_cases [of a b] obtain r where r: "c = Fin r" "0 \<le> r"
    unfolding c_def pairConfidence_def by blast
  have left: "scanCandidates opts a s1 (b # bs) = scanCandidates opts a s1' bs"
    unfolding s1'_def new_def c_def t_def by (simp add: Let_def)
  have right: "scanCandidates_noskip a s2 (b # bs) = scanCandidates_noskip a s2' bs"
    unfolding s2'_def new_def c_def by (simp add: Let_def)
  have below: "\<exists>q. x = Fin q \<and> q < t \<and> 0 \<le> q" if "js_lt x (Fin t)" "js_le (Fin 0) x" for x
    using that by (cases x) (auto simp: js_le_def js_eq_def)
  have above: "x = PosInf \<or> (\<exists>q. x = Fin q \<and> t \<le> q)" if "js_le (Fin t) x" for x
    using that by (cases x) (auto simp: js_le_def js_eq_def)
  have "scanAgree t s1 s2"
    using Cons.prems(1) by (simp add: t_def)
  then have "scanAgree t s1' s2'"
    using r
    by (cases s1; cases s2)
       (auto simp: scanAgree_def s1'_def s2'_def new_def js_gt_def js_le_Fin
             split: if_splits dest!: below above)
  then have "scanAgree (reviewThreshold opts * 0.65) s1' s2'"
    by (simp add: t_def)
  moreover from Cons.prems(2) have "\<forall>b\<in>set bs. pairConfidence a b \<noteq> NaN" by simp
  ultimately show ?case
    unfolding left right by (rule Cons.IH)
qed

lemma scan_origin:
  assumes "scanCandidates opts a best bs = Some bm"
  shows "best = Some bm
         \<or> (bm_product bm \<in> set bs
            \<and> bm_confidence bm = pairConfidence a (bm_product bm)
            \<and> bm_scores bm = computeFeatureScores a (bm_product bm))"
  using assms
proof (induction bs arbitrary: best)
  case Nil
  then show ?case by simp
next
  case (Cons b bs)
  define new where
    "new = \<lparr>bm_product = b, bm_confidence = pairConfidence a b,
            bm_scores = computeFeatureScores a b\<rparr>"
  from Cons.prems have
    "scanCandidates opts a best bs = Some bm \<or> scanCandidates opts a (Some new) bs = Some bm"
    unfolding new_def pairConfidence_def by (simp add: Let_def split: if_splits)
  then show ?case
  proof
    assume "scanCandidates opts a best bs = Some bm"
    from Cons.IH [OF this] show ?thesis by auto
  next
    assume "scanCandidates opts a (Some new) bs = Some bm"
    from Cons.IH [OF this] show ?thesis by (auto simp: new_def)
  qed
qed

lemma scan_keeps_Some: "scanCandidates opts a (Some bm) bs \<noteq> None"
  by (induction bs arbitrary: bm) (simp_all add: Let_def)

lemma scan_None_skipped:
  assumes "scanCandidates opts a best bs = None"
  shows "best = None
         \<and> (\<forall>b\<in>set bs. js_lt (pairConfidence a b) (Fin (reviewThreshold opts * 0.65)))"
  using assms
proof (induction bs arbitrary: best)
  case Nil
  then show ?case by simp
next
  case (Cons b bs)
  from Cons.prems have none: "best = None"
    by (cases best) (auto simp: Let_def scan_keeps_Some split: if_splits)
  with Cons.prems have skipped: "js_lt (pairConfidence a b) (Fin (reviewThreshold opts * 0.65))"
    unfolding pairConfidence_def
    by (auto simp: Let_def scan_keeps_Some split: if_splits)
  with Cons.prems none have "scanCandidates opts a None bs = None"
    unfolding pairConfidence_def by (simp add: Let_def)
  from Cons.IH [OF this] skipped none show ?case by simp
qed

lemma scan_noskip_keeps_Some:
  "scanCandidates_noskip a (Some bm) bs \<noteq> None"
  by (induction bs arbitrary: bm) (simp_all add: Let_def)

lemma scan_noskip_None:
  "scanCandidates_noskip a best bs = None \<longleftrightarrow> best = None \<and> bs = []"
proof (cases best)
  case None
  then show ?thesis
    by (cases bs) (simp_all add: Let_def scan_noskip_keeps_Some)
next
  case (Some bm)
  then show ?thesis by (simp add: scan_noskip_keeps_Some)
qed

lemma scan_noskip_Some:
  assumes "scanCandidates_noskip a best bs = Some bm"
      and "\<forall>b\<in>set bs. pairConfidence a b \<noteq> NaN"
      and "\<forall>bm0. best = Some bm0 \<longrightarrow> bm_confidence bm0 \<noteq> NaN"
  shows "bm_confidence bm \<noteq> NaN
         \<and> (\<forall>b\<in>set bs. js_le (pairConfidence a b) (bm_confidence bm))
         \<and> (\<forall>bm0. best = Some bm0 \<longrightarrow> js_le (bm_confidence bm0) (bm_confidence bm))"
  using assms
proof (induction bs arbitrary: best)
  case Nil
  then show ?case by (simp add: js_le_refl)
next
  case (Cons b bs)
  define c where "c = pairConfidence a b"
  define new where
    "new = \<lparr>bm_product = b, bm_confidence = c, bm_scores = computeFeatureScores a b\<rparr>"
  define best' where
    "best' = (if (case best of None \<Rightarrow> True | Some bm0 \<Rightarrow> js_gt c (bm_confidence bm0))
              then Some new else best)"
  from Cons.prems(2) have c: "c \<noteq> NaN" and rest: "\<forall>b\<in>set bs. pairConfidence a b \<noteq> NaN"
    by (simp_all add: c_def)
  have "scanCandidates_noskip a best (b # bs) = scanCandidates_noskip a best' bs"
    unfolding best'_def new_def c_def pairConfidence_def by (simp add: Let_def)
  with Cons.prems(1) have run: "scanCandidates_noskip a best' bs = Some bm" by simp
  have defined: "\<forall>bm0. best' = Some bm0 \<longrightarrow> bm_confidence bm0 \<noteq> NaN"
    using Cons.prems(3) c by (auto simp: best'_def new_def)
  from Cons.IH [OF run rest defined]
  have ih: "bm_confidence bm \<noteq> NaN"
           "\<forall>b\<in>set bs. js_le (pairConfidence a b) (bm_confidence bm)"
           "\<forall>bm0. best' = Some bm0 \<longrightarrow> js_le (bm_confidence bm0) (bm_confidence bm)"
    by blast+
  have new_le: "best' = Some new \<Longrightarrow> js_le c (bm_confidence bm)"
    using ih(3) by (simp add: new_def)
  have "js_le c (bm_confidence bm)
        \<and> (\<forall>bm0. best = Some bm0 \<longrightarrow> js_le (bm_confidence bm0) (bm_confidence bm))"
  proof (cases best)
    case None
    then have "best' = Some new" by (simp add: best'_def)
    with new_le None show ?thesis by simp
  next
    case (Some bm0)
    with Cons.prems(3) have d0: "bm_confidence bm0 \<noteq> NaN" by simp
    show ?thesis
    proof (cases "js_gt c (bm_confidence bm0)")
      case True
      with Some have "best' = Some new" by (simp add: best'_def)
      from new_le [OF this] have le: "js_le c (bm_confidence bm)" .
      from True have "js_le (bm_confidence bm0) c"
        by (simp add: js_gt_def js_lt_imp_le)
      from js_le_trans [OF this le] le Some show ?thesis by simp
    next
      case False
      with Some have "best' = Some bm0" by (simp add: best'_def)
      with ih(3) have le: "js_le (bm_confidence bm0) (bm_confidence bm)" by simp
      from False d0 c have "js_le c (bm_confidence bm0)"
        by (simp add: js_gt_def js_not_lt)
      from js_le_trans [OF this le] le Some show ?thesis by simp
    qed
  qed
  with ih(1) ih(2) show ?case by (simp add: c_def)
qed

lemma scan_noskip_origin:
  assumes "scanCandidates_noskip a best bs = Some bm"
  shows "best = Some bm
         \<or> (bm_product bm \<in> set bs
            \<and> bm_confidence bm = pairConfidence a (bm_product bm)
            \<and> bm_scores bm = computeFeatureScores a (bm_product bm))"
  using assms
proof (induction bs arbitrary: best)
  case Nil
  then show ?case by simp
next
  case (Cons b bs)
  define new where
    "new = \<lparr>bm_product = b, bm_confidence = pairConfidence a b,
            bm_scores = computeFeatureScores a b\<rparr>"
  from Cons.prems have
    "scanCandidates_noskip a best bs = Some bm
     \<or> scanCandidates_noskip a (Some new) bs = Some bm"
    unfolding new_def pairConfidence_def by (simp add: Let_def split: if_splits)
  then show ?case
  proof
    assume "scanCandidates_noskip a best bs = Some bm"
    from Cons.IH [OF this] show ?thesis by auto
  next
    assume "scanCandidates_noskip a (Some new) bs = Some bm"
    from Cons.IH [OF this] show ?thesis by (auto simp: new_def)
  qed
qed

lemma scan_agrees:
  assumes "\<forall>b\<in>set productsB. pairConfidence a b \<noteq> NaN"
  shows "scanAgree (reviewThreshold opts * 0.65) (scanCandidates opts a None productsB)
           (scanCandidates_noskip a None productsB)"
  by (rule scanAgree_step) (simp_all add: scanAgree_def assms)

lemma scan_result:
  assumes "scanCandidates opts a None productsB = Some bm"
      and "\<forall>b\<in>set productsB. pairConfidence a b \<noteq> NaN"
  shows "\<forall>b\<in>set productsB. js_le (pairConfidence a b) (bm_confidence bm)"
proof -
  from scan_agrees [OF assms(2), of opts] assms(1)
  have "scanCandidates_noskip a None productsB = Some bm"
    by (simp add: scanAgree_def)
  from scan_noskip_Some [OF this assms(2)] show ?thesis by simp
qed

lemma below_floor:
  assumes "js_lt x (Fin (t * 0.65))" and "js_le (Fin 0) x"
  shows "js_lt x (Fin t)"
  using assms by (cases x) (auto simp: js_le_def js_eq_def)

lemma scan_none:
  assumes "scanCandidates opts a None productsB = None" and "b \<in> set productsB"
      and "pairConfidence a b \<noteq> NaN"
  shows "js_lt (pairConfidence a b) (Fin (reviewThreshold opts))"
proof -
  from scan_None_skipped [OF assms(1)] assms(2)
  have "js_lt (pairConfidence a b) (Fin (reviewThreshold opts * 0.65))" by blast
  with pairConfidence_nonneg [OF assms(3)] show ?thesis by (rule below_floor [rotated -1]) 
qed

lemma matchStep_noskip_eq:
  assumes "\<forall>b\<in>set productsB. pairConfidence a b \<noteq> NaN"
  shows "matchStep_noskip opts productsB st a = matchStep opts productsB st a"
proof -
  let ?t = "reviewThreshold opts * 0.65"
  note agree = scan_agrees [OF assms, of opts]
  show ?thesis
  proof (cases "scanCandidates opts a None productsB")
    case (Some bm)
    with agree show ?thesis
      by (simp add: scanAgree_def matchStep_def matchStep_noskip_def)
  next
    case None
    show ?thesis
    proof (cases "scanCandidates_noskip a None productsB")
      case n: None
      with None show ?thesis by (simp add: matchStep_def matchStep_noskip_def)
    next
      case (Some bm)
      with None agree have "js_lt (bm_confidence bm) (Fin ?t)" "js_le (Fin 0) (bm_confidence bm)"
        by (simp_all add: scanAgree_def)
      then have "js_lt (bm_confidence bm) (Fin (reviewThreshold opts))" by (rule below_floor)
      with None Some show ?thesis by (simp add: matchStep_def matchStep_noskip_def)
    qed
  qed
qed

lemma matchLoop_noskip_eq:
  assumes "\<forall>a\<in>set productsA. \<forall>b\<in>set productsB. pairConfidence a b \<noteq> NaN"
  shows "foldl (matchStep_noskip opts productsB) st productsA
           = foldl (matchStep opts productsB) st productsA"
  using assms
proof (induction productsA arbitrary: st)
  case Nil
  show ?case by simp
next
  case (Cons a as)
  from Cons.prems have "\<forall>b\<in>set productsB. pairConfidence a b \<noteq> NaN" by simp
  then have "matchStep_noskip opts productsB st a = matchStep opts productsB st a"
    by (rule matchStep_noskip_eq)
  moreover from Cons.prems
  have "foldl (matchStep_noskip opts productsB) (matchStep opts productsB st a) as
          = foldl (matchStep opts productsB) (matchStep opts productsB st a) as"
    by (intro Cons.IH) simp
  ultimately show ?case by simp
qed

subsection \<open>The outer loop\<close>

lemma stepOutcome_record:
  assumes "stepOutcome opts productsB a = Some (m, i)"
  shows "\<exists>b\<in>set productsB. m = matchRecordFor opts a b \<and> i = sourceId b
           \<and> \<not> js_lt (pairConfidence a b) (Fin (reviewThreshold opts))
           \<and> scanCandidates opts a None productsB
               = Some \<lparr>bm_product = b, bm_confidence = pairConfidence a b,
                       bm_scores = computeFeatureScores a b\<rparr>"
proof -
  from assms obtain bm where bm: "scanCandidates opts a None productsB = Some bm"
    by (auto simp: stepOutcome_def split: option.splits)
  from scan_origin [OF bm]
  have mem: "bm_product bm \<in> set productsB"
    and c: "bm_confidence bm = pairConfidence a (bm_product bm)"
    and s: "bm_scores bm = computeFeatureScores a (bm_product bm)"
    by simp_all
  from assms bm have ge: "\<not> js_lt (bm_confidence bm) (Fin (reviewThreshold opts))"
    by (auto simp: stepOutcome_def split: if_splits)
  from assms bm ge have "m = matchRecordFor opts a (bm_product bm)"
    unfolding stepOutcome_def matchRecordFor_def c [symmetric] s [symmetric] by simp
  moreover from assms bm ge have "i = sourceId (bm_product bm)"
    by (simp add: stepOutcome_def)
  moreover from ge have "\<not> js_lt (pairConfidence a (bm_product bm)) (Fin (reviewThreshold opts))"
    unfolding c [symmetric] .
  moreover have "bm = \<lparr>bm_product = bm_product bm,
      bm_confidence = pairConfidence a (bm_product bm),
      bm_scores = computeFeatureScores a (bm_product bm)\<rparr>"
    unfolding c [symmetric] s [symmetric] by simp
  ultimately show ?thesis using mem bm by metis
qed

lemma stepOutcome_None:
  assumes "\<forall>b\<in>set productsB. pairConfidence a b \<noteq> NaN"
  shows "stepOutcome opts productsB a = None
     \<longleftrightarrow> \<not> (\<exists>b\<in>set productsB. js_le (Fin (reviewThreshold opts)) (pairConfidence a b))"
proof (cases "scanCandidates opts a None productsB")
  case None
  have "\<forall>b\<in>set productsB. js_lt (pairConfidence a b) (Fin (reviewThreshold opts))"
    using scan_none [OF None] assms by blast
  then have "\<forall>b\<in>set productsB. \<not> js_le (Fin (reviewThreshold opts)) (pairConfidence a b)"
    using assms by (simp add: js_not_lt [symmetric])
  with None show ?thesis by (auto simp: stepOutcome_def)
next
  case (Some bm)
  note mx = scan_result [OF Some assms]
  from scan_origin [OF Some]
  have mem: "bm_product bm \<in> set productsB"
    and c: "bm_confidence bm = pairConfidence a (bm_product bm)"
    by simp_all
  from mem assms c have d: "bm_confidence bm \<noteq> NaN" by simp
  show ?thesis
  proof (cases "js_lt (bm_confidence bm) (Fin (reviewThreshold opts))")
    case True
    have "\<not> js_le (Fin (reviewThreshold opts)) (pairConfidence a b)" if "b \<in> set productsB" for b
    proof -
      from mx that have "js_le (pairConfidence a b) (bm_confidence bm)" by blast
      from js_le_lt_trans [OF this True] assms that show ?thesis
        by (simp add: js_not_lt [symmetric])
    qed
    with True Some show ?thesis by (auto simp: stepOutcome_def)
  next
    case False
    with d have "js_le (Fin (reviewThreshold opts)) (pairConfidence a (bm_product bm))"
      unfolding c [symmetric] by (simp add: js_not_lt)
    with mem have "\<exists>b\<in>set productsB. js_le (Fin (reviewThreshold opts)) (pairConfidence a b)"
      by blast
    with False Some show ?thesis by (simp add: stepOutcome_def)
  qed
qed

lemma stepOutcome_Some:
  assumes "stepOutcome opts productsB a = Some (m, i)"
      and "\<forall>b\<in>set productsB. pairConfidence a b \<noteq> NaN"
  shows "\<exists>b\<in>set productsB. m = matchRecordFor opts a b \<and> i = sourceId b
           \<and> js_le (Fin (reviewThreshold opts)) (pairConfidence a b)
           \<and> (\<forall>b'\<in>set productsB. js_le (pairConfidence a b') (pairConfidence a b))"
proof -
  from stepOutcome_record [OF assms(1)] obtain b where b: "b \<in> set productsB"
    and m: "m = matchRecordFor opts a b" and i: "i = sourceId b"
    and ge: "\<not> js_lt (pairConfidence a b) (Fin (reviewThreshold opts))"
    and run: "scanCandidates opts a None productsB
               = Some \<lparr>bm_product = b, bm_confidence = pairConfidence a b,
                       bm_scores = computeFeatureScores a b\<rparr>"
    by blast
  from scan_result [OF run assms(2)]
  have "\<forall>b'\<in>set productsB. js_le (pairConfidence a b') (pairConfidence a b)" by simp
  moreover from ge b assms(2) have "js_le (Fin (reviewThreshold opts)) (pairConfidence a b)"
    by (simp add: js_not_lt)
  ultimately show ?thesis using b m i by blast
qed

lemma matchStep_outcome:
  "matchStep opts productsB st a =
     (case stepOutcome opts productsB a of
        None \<Rightarrow> st\<lparr>st_unmatchedA := st_unmatchedA st @ [summarizeProduct a]\<rparr>
      | Some (m, i) \<Rightarrow> st\<lparr>st_matches := st_matches st @ [m],
                            st_matchedBIds := insert i (st_matchedBIds st)\<rparr>)"
  by (simp add: matchStep_def stepOutcome_def Let_def split: option.splits)

lemma matchLoop_state:
  "foldl (matchStep opts productsB) st productsA =
     \<lparr>st_matches = st_matches st @ map fst (List.map_filter (stepOutcome opts productsB) productsA),
      st_unmatchedA = st_unmatchedA st @
         map summarizeProduct (filter (\<lambda>a. stepOutcome opts productsB a = None) productsA),
      st_matchedBIds = st_matchedBIds st \<union>
         set (map snd (List.map_filter (stepOutcome opts productsB) productsA))\<rparr>"
proof (induction productsA arbitrary: st)
  case Nil
  show ?case by (simp add: List.map_filter_simps)
next
  case (Cons a as)
  have step: "foldl (matchStep opts productsB) st (a # as)
                = foldl (matchStep opts productsB) (matchStep opts productsB st a) as"
    by simp
  show ?case
    unfolding step Cons.IH
    by (cases "stepOutcome opts productsB a")
       (auto simp: matchStep_outcome List.map_filter_simps)
qed

lemma matchProducts_result:
  assumes "matchProducts productsA productsB options = Inr res"
  shows "matches res
           = map fst (List.map_filter (stepOutcome (resolveOptions options) productsB) productsA)"
    and "unmatchedA res
           = map summarizeProduct
               (filter (\<lambda>a. stepOutcome (resolveOptions options) productsB a = None) productsA)"
    and "unmatchedB res
           = map summarizeProduct
               (filter (\<lambda>p. sourceId p \<notin>
                    set (map snd (List.map_filter (stepOutcome (resolveOptions options) productsB)
                                     productsA)))
                  productsB)"
    and "\<not> reviewThreshold (resolveOptions options) > autoAcceptThreshold (resolveOptions options)"
  using assms
  by (auto simp: matchProducts_def Let_def matchLoop_state split: if_splits)

lemma map_filter_fst_set:
  "m \<in> set (map fst (List.map_filter f xs)) \<longleftrightarrow> (\<exists>x\<in>set xs. \<exists>i. f x = Some (m, i))"
  by (induction xs) (auto simp: List.map_filter_simps split: option.splits)

lemma map_filter_length:
  "length (List.map_filter f xs) + length (filter (\<lambda>x. f x = None) xs) = length xs"
  by (induction xs) (auto simp: List.map_filter_simps split: option.splits)

lemma map_filter_count:
  "length (filter P (map fst (List.map_filter f xs)))
     = length (filter (\<lambda>x. \<exists>m i. f x = Some (m, i) \<and> P m) xs)"
  by (induction xs) (auto simp: List.map_filter_simps split: option.splits)

lemma filter_length_mono:
  assumes "\<And>x. x \<in> set xs \<Longrightarrow> P x \<Longrightarrow> Q x"
  shows "length (filter P xs) \<le> length (filter Q xs)"
  using assms by (induction xs) auto


lemma stepOutcome_productA:
  "map (productA \<circ> fst) (List.map_filter (stepOutcome opts productsB) productsA)
     = map summarizeProduct
         (filter (\<lambda>a. stepOutcome opts productsB a \<noteq> None) productsA)"
proof (induction productsA)
  case Nil
  show ?case by (simp add: List.map_filter_simps)
next
  case (Cons a as)
  show ?case
  proof (cases "stepOutcome opts productsB a")
    case None
    with Cons show ?thesis by (simp add: List.map_filter_simps)
  next
    case (Some mi)
    obtain m i where mi: "mi = (m, i)" by (cases mi)
    from stepOutcome_record [of opts productsB a m i] Some mi
    have "productA m = summarizeProduct a"
      by (auto simp: matchRecordFor_def)
    with Some mi Cons show ?thesis by (simp add: List.map_filter_simps)
  qed
qed

lemma stepOutcome_ids:
  "map snd (List.map_filter (stepOutcome opts productsB) productsA)
     = map (sum_sourceId \<circ> productB \<circ> fst)
         (List.map_filter (stepOutcome opts productsB) productsA)"
proof (induction productsA)
  case Nil
  show ?case by (simp add: List.map_filter_simps)
next
  case (Cons a as)
  show ?case
  proof (cases "stepOutcome opts productsB a")
    case None
    with Cons show ?thesis by (simp add: List.map_filter_simps)
  next
    case (Some mi)
    obtain m i where mi: "mi = (m, i)" by (cases mi)
    from stepOutcome_record [of opts productsB a m i] Some mi
    have "i = sum_sourceId (productB m)"
      by (auto simp: matchRecordFor_def summarizeProduct_def)
    with Some mi Cons show ?thesis by (simp add: List.map_filter_simps)
  qed
qed

lemma stepOutcome_id_in_B:
  assumes "i \<in> set (map snd (List.map_filter (stepOutcome opts productsB) productsA))"
  shows "i \<in> set (map sourceId productsB)"
proof -
  from assms obtain a m where "stepOutcome opts productsB a = Some (m, i)"
    by (induction productsA) (auto simp: List.map_filter_simps split: option.splits)
  from stepOutcome_record [OF this] show ?thesis by auto
qed

lemma finiteSizes_confidences:
  assumes "finiteSizes productsA" and "finiteSizes productsB"
  shows "\<forall>a\<in>set productsA. \<forall>b\<in>set productsB. pairConfidence a b \<noteq> NaN"
  using assms pairConfidence_finite unfolding finiteSizes_def list_all_iff by blast

subsection \<open>The fast skip\<close>

text \<open>
  When no size is infinite the loops with and without the skip give the same outcome.
\<close>

lemma matchProducts_skip_is_no_boundary_finite:
  assumes "finiteSizes productsA" and "finiteSizes productsB"
  shows "matchProducts_noskip productsA productsB options
           = matchProducts productsA productsB options"
  unfolding matchProducts_def matchProducts_noskip_def
    matchLoop_noskip_eq [OF finiteSizes_confidences [OF assms]] ..

text \<open>
  Claim C7. The fast skip is no correctness boundary: with or without the test
  \<^verbatim>\<open>confidence < reviewThreshold * 0.65\<close>, \<^verbatim>\<open>matchProducts\<close> gives the same matches in the
  same order, the same \<^verbatim>\<open>unmatchedA\<close> and the same \<^verbatim>\<open>unmatchedB\<close>. The code departs from it
  when a candidate has the confidence \<^verbatim>\<open>NaN\<close>, which a candidate of infinite size has
  against a sized product: \<^verbatim>\<open>NaN\<close> is not below the floor, not above the best so far
  and not below \<^verbatim>\<open>reviewThreshold\<close>. Below, the first candidate has the confidence 1/3,
  under the floor 0.39, and the second \<^verbatim>\<open>NaN\<close>. With the skip the first is passed over,
  the second becomes the best and is matched, decided \<^verbatim>\<open>review\<close>; without the skip the
  first becomes the best, the second does not replace it, and the A entity is
  unmatched.
\<close>

theorem matchProducts_skip_decides_outcome:
  "matchProducts [exSized] [exB, exHuge] (givenOptions 0.82 0.6)
     = Inr \<lparr>matches = [\<lparr>productA = summarizeProduct exSized,
                         productB = summarizeProduct exHuge,
                         confidence = NaN, decision = Review,
                         featureScores = \<lparr>upc_score = Fin 0, name_score = Fin 0,
                            brand_score = Fin 0, size_score = NaN, category_score = Fin 0,
                            price_score = Fin 0, dietPenalty = Fin 0\<rparr>\<rparr>],
             unmatchedA = [], unmatchedB = [summarizeProduct exB]\<rparr>
   \<and> matchProducts_noskip [exSized] [exB, exHuge] (givenOptions 0.82 0.6)
     = Inr \<lparr>matches = [], unmatchedA = [summarizeProduct exSized],
             unmatchedB = [summarizeProduct exB, summarizeProduct exHuge]\<rparr>
   \<and> pairConfidence exSized exB = Fin (1 / 3)
   \<and> pairConfidence exSized exHuge = NaN
   \<and> sizeOz exHuge = Some PosInf"
  by code_simp

section \<open>Decisions and thresholds\<close>

text \<open>
  Claim C1, as amended. When the thresholds are finite and no product has an infinite
  size, the decision of a \<^verbatim>\<open>MatchRecord\<close> is taken on the confidence of its pair before
  rounding. The record is that of an A entity \<open>a\<close> and of a B entity \<open>b\<close> of highest confidence for \<open>a\<close>, its
  \<^verbatim>\<open>confidence\<close> field is that confidence rounded to two decimals, its decision is \<^verbatim>\<open>auto\<close>
  iff the unrounded confidence is at least \<^verbatim>\<open>autoAcceptThreshold\<close>, and \<^verbatim>\<open>review\<close> iff it
  lies between \<^verbatim>\<open>reviewThreshold\<close> (included) and \<^verbatim>\<open>autoAcceptThreshold\<close> (excluded). The
  records are those of the A entities that have a candidate at or above
  \<^verbatim>\<open>reviewThreshold\<close>, in the order of A; an A entity all of whose candidates are below it
  gives no record and is listed in \<^verbatim>\<open>unmatchedA\<close>. What the records are when a size is
  infinite is left open here.
\<close>

theorem matchProducts_decision_by_unrounded_confidence:
  assumes "matchProducts productsA productsB options = Inr res"
      and "finiteSizes productsA" and "finiteSizes productsB"
  shows "(\<forall>m\<in>set (matches res). \<exists>a\<in>set productsA. \<exists>b\<in>set productsB.
            productA m = summarizeProduct a \<and> productB m = summarizeProduct b
            \<and> confidence m = round_to (pairConfidence a b) 2
            \<and> (\<forall>b'\<in>set productsB. js_le (pairConfidence a b') (pairConfidence a b))
            \<and> (decision m = Auto
                 \<longleftrightarrow> js_ge (pairConfidence a b) (Fin (autoAcceptThreshold (resolveOptions options))))
            \<and> (decision m = Review
                 \<longleftrightarrow> js_le (Fin (reviewThreshold (resolveOptions options))) (pairConfidence a b)
                      \<and> js_lt (pairConfidence a b)
                            (Fin (autoAcceptThreshold (resolveOptions options)))))
         \<and> map productA (matches res)
             = map summarizeProduct
                 (filter (\<lambda>a. \<exists>b\<in>set productsB.
                            js_le (Fin (reviewThreshold (resolveOptions options)))
                              (pairConfidence a b))
                    productsA)
         \<and> unmatchedA res
             = map summarizeProduct
                 (filter (\<lambda>a. \<forall>b\<in>set productsB.
                            js_lt (pairConfidence a b)
                              (Fin (reviewThreshold (resolveOptions options))))
                    productsA)"
proof -
  let ?opts = "resolveOptions options"
  let ?rT = "Fin (reviewThreshold ?opts)" and ?aT = "Fin (autoAcceptThreshold ?opts)"
  note res = matchProducts_result [OF assms(1)]
  note defined = finiteSizes_confidences [OF assms(2,3)]
  have none_iff: "stepOutcome ?opts productsB a = None
      \<longleftrightarrow> (\<forall>b\<in>set productsB. js_lt (pairConfidence a b) ?rT)" if "a \<in> set productsA" for a
  proof -
    from defined that have d: "\<forall>b\<in>set productsB. pairConfidence a b \<noteq> NaN" by blast
    then show ?thesis
      unfolding stepOutcome_None [OF d] by (auto simp: js_not_lt [symmetric])
  qed
  have some_iff: "stepOutcome ?opts productsB a \<noteq> None
      \<longleftrightarrow> (\<exists>b\<in>set productsB. js_le ?rT (pairConfidence a b))" if "a \<in> set productsA" for a
  proof -
    from defined that have d: "\<forall>b\<in>set productsB. pairConfidence a b \<noteq> NaN" by blast
    show ?thesis by (simp add: stepOutcome_None [OF d])
  qed
  have records: "\<exists>a\<in>set productsA. \<exists>b\<in>set productsB.
            productA m = summarizeProduct a \<and> productB m = summarizeProduct b
            \<and> confidence m = round_to (pairConfidence a b) 2
            \<and> (\<forall>b'\<in>set productsB. js_le (pairConfidence a b') (pairConfidence a b))
            \<and> (decision m = Auto \<longleftrightarrow> js_ge (pairConfidence a b) ?aT)
            \<and> (decision m = Review
                 \<longleftrightarrow> js_le ?rT (pairConfidence a b) \<and> js_lt (pairConfidence a b) ?aT)"
    if "m \<in> set (matches res)" for m
  proof -
    from that have "m \<in> set (map fst (List.map_filter (stepOutcome ?opts productsB) productsA))"
      by (simp only: res(1))
    then obtain a i where a: "a \<in> set productsA"
      and out: "stepOutcome ?opts productsB a = Some (m, i)"
      unfolding map_filter_fst_set by blast
    from defined a have d: "\<forall>b\<in>set productsB. pairConfidence a b \<noteq> NaN" by blast
    from stepOutcome_Some [OF out d] obtain b where b: "b \<in> set productsB"
      and m: "m = matchRecordFor ?opts a b"
      and ge: "js_le ?rT (pairConfidence a b)"
      and mx: "\<forall>b'\<in>set productsB. js_le (pairConfidence a b') (pairConfidence a b)"
      by blast
    from d b have "pairConfidence a b \<noteq> NaN" by blast
    then have lin: "js_lt (pairConfidence a b) ?aT \<longleftrightarrow> \<not> js_ge (pairConfidence a b) ?aT"
      by (simp add: js_ge_def js_not_lt [symmetric])
    have "productA m = summarizeProduct a \<and> productB m = summarizeProduct b
            \<and> confidence m = round_to (pairConfidence a b) 2
            \<and> (decision m = Auto \<longleftrightarrow> js_ge (pairConfidence a b) ?aT)
            \<and> (decision m = Review
                 \<longleftrightarrow> js_le ?rT (pairConfidence a b) \<and> js_lt (pairConfidence a b) ?aT)"
      using ge lin by (auto simp: m matchRecordFor_def)
    with a b mx show ?thesis by blast
  qed
  have "map productA (matches res)
          = map summarizeProduct
              (filter (\<lambda>a. stepOutcome ?opts productsB a \<noteq> None) productsA)"
    using stepOutcome_productA [of ?opts productsB productsA] by (simp add: res(1))
  also have "filter (\<lambda>a. stepOutcome ?opts productsB a \<noteq> None) productsA
      = filter (\<lambda>a. \<exists>b\<in>set productsB. js_le ?rT (pairConfidence a b)) productsA"
    by (rule filter_cong [OF refl]) (rule some_iff)
  finally have matched: "map productA (matches res)
             = map summarizeProduct
                 (filter (\<lambda>a. \<exists>b\<in>set productsB. js_le ?rT (pairConfidence a b)) productsA)" .
  have "filter (\<lambda>a. stepOutcome ?opts productsB a = None) productsA
      = filter (\<lambda>a. \<forall>b\<in>set productsB. js_lt (pairConfidence a b) ?rT) productsA"
    by (rule filter_cong [OF refl]) (rule none_iff)
  then have unmatched: "unmatchedA res
             = map summarizeProduct
                 (filter (\<lambda>a. \<forall>b\<in>set productsB. js_lt (pairConfidence a b) ?rT) productsA)"
    using res(2) by simp
  from records matched unmatched show ?thesis by blast
qed

theorem matchProducts_decision_by_unrounded_confidence_witness:
  "\<exists>res. matchProducts [exSized, exQ] [exB2] (givenOptions 0.67 0.5) = Inr res
     \<and> finiteSizes [exSized, exQ] \<and> finiteSizes [exB2]
     \<and> map (\<lambda>m. (confidence m, decision m)) (matches res) = [(Fin 0.5, Review)]
     \<and> (\<exists>a\<in>set [exSized, exQ]. \<exists>b\<in>set [exB2].
            productA (hd (matches res)) = summarizeProduct a
            \<and> productB (hd (matches res)) = summarizeProduct b
            \<and> confidence (hd (matches res)) = round_to (pairConfidence a b) 2
            \<and> js_lt (pairConfidence a b)
                 (Fin (autoAcceptThreshold (resolveOptions (givenOptions 0.67 0.5)))))
     \<and> map productA (matches res) = [summarizeProduct exSized]
     \<and> unmatchedA res = [summarizeProduct exQ]"
proof -
  define res where
    "res = \<lparr>matches = [\<lparr>productA = summarizeProduct exSized, productB = summarizeProduct exB2,
                     confidence = Fin 0.5, decision = Review,
                     featureScores = \<lparr>upc_score = Fin 0, name_score = Fin 0.5,
                        brand_score = Fin 0, size_score = Fin 0, category_score = Fin 0,
                        price_score = Fin 0, dietPenalty = Fin 0\<rparr>\<rparr>],
        unmatchedA = [summarizeProduct exQ], unmatchedB = []\<rparr>"
  define m where "m = hd (matches res)"
  have run: "matchProducts [exSized, exQ] [exB2] (givenOptions 0.67 0.5) = Inr res"
    unfolding res_def by code_simp
  have fin: "finiteSizes [exSized, exQ]" "finiteSizes [exB2]"
    by code_simp+
  have m_in: "m \<in> set (matches res)" and m_rev: "decision m = Review"
    by (simp_all add: m_def res_def)
  note concl = matchProducts_decision_by_unrounded_confidence [OF run fin]
  from concl have "\<forall>m\<in>set (matches res). \<exists>a\<in>set [exSized, exQ]. \<exists>b\<in>set [exB2].
            productA m = summarizeProduct a \<and> productB m = summarizeProduct b
            \<and> confidence m = round_to (pairConfidence a b) 2
            \<and> (\<forall>b'\<in>set [exB2]. js_le (pairConfidence a b') (pairConfidence a b))
            \<and> (decision m = Auto
                 \<longleftrightarrow> js_ge (pairConfidence a b)
                       (Fin (autoAcceptThreshold (resolveOptions (givenOptions 0.67 0.5)))))
            \<and> (decision m = Review
                 \<longleftrightarrow> js_le (Fin (reviewThreshold (resolveOptions (givenOptions 0.67 0.5))))
                       (pairConfidence a b)
                      \<and> js_lt (pairConfidence a b)
                          (Fin (autoAcceptThreshold (resolveOptions (givenOptions 0.67 0.5)))))"
    by (rule conjunct1)
  from bspec [OF this m_in] obtain a b where ab: "a \<in> set [exSized, exQ]" "b \<in> set [exB2]"
    and pa: "productA m = summarizeProduct a" and pb: "productB m = summarizeProduct b"
    and c: "confidence m = round_to (pairConfidence a b) 2"
    and r: "decision m = Review
                 \<longleftrightarrow> js_le (Fin (reviewThreshold (resolveOptions (givenOptions 0.67 0.5))))
                       (pairConfidence a b)
                      \<and> js_lt (pairConfidence a b)
                          (Fin (autoAcceptThreshold (resolveOptions (givenOptions 0.67 0.5))))"
    by blast
  from r m_rev have
    "js_lt (pairConfidence a b)
       (Fin (autoAcceptThreshold (resolveOptions (givenOptions 0.67 0.5))))"
    by simp
  with ab pa pb c have rec: "\<exists>a\<in>set [exSized, exQ]. \<exists>b\<in>set [exB2].
            productA (hd (matches res)) = summarizeProduct a
            \<and> productB (hd (matches res)) = summarizeProduct b
            \<and> confidence (hd (matches res)) = round_to (pairConfidence a b) 2
            \<and> js_lt (pairConfidence a b)
                 (Fin (autoAcceptThreshold (resolveOptions (givenOptions 0.67 0.5))))"
    unfolding m_def by blast
  have rest: "map productA (matches res) = [summarizeProduct exSized]"
    "unmatchedA res = [summarizeProduct exQ]"
    "map (\<lambda>m. (confidence m, decision m)) (matches res) = [(Fin 0.5, Review)]"
    by (simp_all add: res_def)
  show ?thesis
    by (rule exI [of _ res]) (intro conjI run fin rec rest)
qed

text \<open>
  The claim as stated, on the \<^verbatim>\<open>confidence\<close> field of the record, fails: the pair below
  has the confidence 2/3, which is under the threshold 0.67, so its decision is
  \<^verbatim>\<open>review\<close>; the record holds the rounded 0.67, which is not under the threshold.
\<close>

theorem matchProducts_rounded_confidence_counterexample:
  "matchProducts [exA] [exB] (givenOptions 0.67 0.6) =
     Inr \<lparr>matches = [\<lparr>productA = summarizeProduct exA, productB = summarizeProduct exB,
                       confidence = Fin 0.67, decision = Review,
                       featureScores = \<lparr>upc_score = Fin 0, name_score = Fin 0.67,
                          brand_score = Fin 0, size_score = Fin 0, category_score = Fin 0,
                          price_score = Fin 0, dietPenalty = Fin 0\<rparr>\<rparr>],
           unmatchedA = [], unmatchedB = []\<rparr>
   \<and> autoAcceptThreshold (resolveOptions (givenOptions 0.67 0.6)) = 0.67
   \<and> reviewThreshold (resolveOptions (givenOptions 0.67 0.6)) = 0.6
   \<and> \<not> js_lt (Fin 0.67) (Fin (autoAcceptThreshold (resolveOptions (givenOptions 0.67 0.6))))"
  by code_simp

text \<open>
  When no size is infinite, raising \<^verbatim>\<open>autoAcceptThreshold\<close> at a fixed \<^verbatim>\<open>reviewThreshold\<close>
  never increases the number of records decided \<^verbatim>\<open>auto\<close>, and raising \<^verbatim>\<open>reviewThreshold\<close>
  at a fixed \<^verbatim>\<open>autoAcceptThreshold\<close> never decreases the length of \<^verbatim>\<open>unmatchedA\<close>.
\<close>

lemma matchProducts_threshold_monotonicity_finite:
  assumes "matchProducts productsA productsB options1 = Inr res1"
      and "matchProducts productsA productsB options2 = Inr res2"
      and "finiteSizes productsA" and "finiteSizes productsB"
  shows "(reviewThreshold (resolveOptions options1) = reviewThreshold (resolveOptions options2)
          \<and> autoAcceptThreshold (resolveOptions options1)
              \<le> autoAcceptThreshold (resolveOptions options2)
          \<longrightarrow> length (filter (\<lambda>m. decision m = Auto) (matches res2))
                \<le> length (filter (\<lambda>m. decision m = Auto) (matches res1)))
         \<and> (autoAcceptThreshold (resolveOptions options1)
              = autoAcceptThreshold (resolveOptions options2)
          \<and> reviewThreshold (resolveOptions options1)
              \<le> reviewThreshold (resolveOptions options2)
          \<longrightarrow> length (unmatchedA res1) \<le> length (unmatchedA res2))"
proof (intro conjI impI)
  let ?o1 = "resolveOptions options1" and ?o2 = "resolveOptions options2"
  note r1 = matchProducts_result [OF assms(1)]
  note r2 = matchProducts_result [OF assms(2)]
  note defined = finiteSizes_confidences [OF assms(3,4)]
  {
    assume h: "reviewThreshold ?o1 = reviewThreshold ?o2
               \<and> autoAcceptThreshold ?o1 \<le> autoAcceptThreshold ?o2"
    have imp: "\<exists>m i. stepOutcome ?o1 productsB a = Some (m, i) \<and> decision m = Auto"
      if "a \<in> set productsA"
        and "\<exists>m i. stepOutcome ?o2 productsB a = Some (m, i) \<and> decision m = Auto" for a
    proof -
      from defined that(1) have d: "\<forall>b\<in>set productsB. pairConfidence a b \<noteq> NaN" by blast
      from that(2) obtain m i where out: "stepOutcome ?o2 productsB a = Some (m, i)"
        and dm: "decision m = Auto" by blast
      from stepOutcome_Some [OF out d] obtain b where b: "b \<in> set productsB"
        and m: "m = matchRecordFor ?o2 a b"
        and ge: "js_le (Fin (reviewThreshold ?o2)) (pairConfidence a b)" by blast
      from dm m have big: "js_le (Fin (autoAcceptThreshold ?o2)) (pairConfidence a b)"
        by (auto simp: matchRecordFor_def js_ge_def split: if_splits)
      from b ge h have "stepOutcome ?o1 productsB a \<noteq> None"
        by (auto simp: stepOutcome_None [OF d])
      then obtain m' i' where out': "stepOutcome ?o1 productsB a = Some (m', i')"
        by (cases "stepOutcome ?o1 productsB a") auto
      from stepOutcome_Some [OF out' d] obtain b' where m': "m' = matchRecordFor ?o1 a b'"
        and mx: "\<forall>x\<in>set productsB. js_le (pairConfidence a x) (pairConfidence a b')" by blast
      from mx b have "js_le (pairConfidence a b) (pairConfidence a b')" by blast
      with big have "js_le (Fin (autoAcceptThreshold ?o2)) (pairConfidence a b')"
        by (rule js_le_trans)
      moreover from h have "js_le (Fin (autoAcceptThreshold ?o1)) (Fin (autoAcceptThreshold ?o2))"
        by (simp add: js_le_Fin)
      ultimately have "js_le (Fin (autoAcceptThreshold ?o1)) (pairConfidence a b')"
        by (rule js_le_trans [rotated])
      then have "decision m' = Auto" by (simp add: m' matchRecordFor_def js_ge_def)
      with out' show ?thesis by blast
    qed
    show "length (filter (\<lambda>m. decision m = Auto) (matches res2))
            \<le> length (filter (\<lambda>m. decision m = Auto) (matches res1))"
      unfolding r1(1) r2(1) map_filter_count
      by (rule filter_length_mono) (rule imp)
  }
  {
    assume h: "autoAcceptThreshold ?o1 = autoAcceptThreshold ?o2
               \<and> reviewThreshold ?o1 \<le> reviewThreshold ?o2"
    have imp: "stepOutcome ?o2 productsB a = None"
      if "a \<in> set productsA" and "stepOutcome ?o1 productsB a = None" for a
    proof -
      from defined that(1) have d: "\<forall>b\<in>set productsB. pairConfidence a b \<noteq> NaN" by blast
      from h have le: "js_le (Fin (reviewThreshold ?o1)) (Fin (reviewThreshold ?o2))"
        by (simp add: js_le_Fin)
      from that(2) have "\<forall>b\<in>set productsB. \<not> js_le (Fin (reviewThreshold ?o1)) (pairConfidence a b)"
        by (simp add: stepOutcome_None [OF d])
      with js_le_trans [OF le]
      have "\<forall>b\<in>set productsB. \<not> js_le (Fin (reviewThreshold ?o2)) (pairConfidence a b)"
        by blast
      then show ?thesis by (simp add: stepOutcome_None [OF d])
    qed
    show "length (unmatchedA res1) \<le> length (unmatchedA res2)"
      unfolding r1(2) r2(2) length_map
      by (rule filter_length_mono) (rule imp)
  }
qed

text \<open>
  Claim C6. For fixed product lists and two valid configurations, raising
  \<^verbatim>\<open>autoAcceptThreshold\<close> at a fixed \<^verbatim>\<open>reviewThreshold\<close> never increases the number of
  records decided \<^verbatim>\<open>auto\<close>, and raising \<^verbatim>\<open>reviewThreshold\<close> at a fixed
  \<^verbatim>\<open>autoAcceptThreshold\<close> never decreases the length of \<^verbatim>\<open>unmatchedA\<close>. The code departs
  from the second part when a candidate has the confidence \<^verbatim>\<open>NaN\<close>. Below, the first
  candidate has the confidence 1/2 and the second, of infinite size, \<^verbatim>\<open>NaN\<close>. At the
  \<^verbatim>\<open>reviewThreshold\<close> 0.6 the floor of the skip is 0.39: the first candidate becomes the
  best, the second does not replace it and, 1/2 being under 0.6, the A entity is
  unmatched. At the \<^verbatim>\<open>reviewThreshold\<close> 0.8 the floor is 0.52: the first candidate is
  passed over, the second becomes the best and, \<^verbatim>\<open>NaN\<close> not being under 0.8, the A
  entity is matched. Raising the threshold has shortened \<^verbatim>\<open>unmatchedA\<close>.
\<close>

theorem matchProducts_review_threshold_not_monotone:
  "matchProducts [exSized] [exB2, exHuge] (givenOptions 0.82 0.6)
     = Inr \<lparr>matches = [], unmatchedA = [summarizeProduct exSized],
             unmatchedB = [summarizeProduct exB2, summarizeProduct exHuge]\<rparr>
   \<and> matchProducts [exSized] [exB2, exHuge] (givenOptions 0.82 0.8)
     = Inr \<lparr>matches = [\<lparr>productA = summarizeProduct exSized,
                         productB = summarizeProduct exHuge,
                         confidence = NaN, decision = Review,
                         featureScores = \<lparr>upc_score = Fin 0, name_score = Fin 0,
                            brand_score = Fin 0, size_score = NaN, category_score = Fin 0,
                            price_score = Fin 0, dietPenalty = Fin 0\<rparr>\<rparr>],
             unmatchedA = [], unmatchedB = [summarizeProduct exB2]\<rparr>
   \<and> pairConfidence exSized exB2 = Fin (1 / 2)
   \<and> pairConfidence exSized exHuge = NaN
   \<and> sizeOz exHuge = Some PosInf"
  by code_simp

section \<open>The B entities of a result\<close>

text \<open>
  Claim C2, as amended. The identifier of the B entity of every \<^verbatim>\<open>MatchRecord\<close> is the
  identifier of an entity of B; every identifier of B is either such a matched identifier
  or the identifier of an entry of \<^verbatim>\<open>unmatchedB\<close>, and never both; \<^verbatim>\<open>unmatchedB\<close> lists, in
  the order of B, the entities of B whose identifier is not matched, so it repeats no
  identifier when B repeats none; and every A entity gives one outcome, a record or an
  entry of \<^verbatim>\<open>unmatchedA\<close>. How many records share a matched identifier is not bounded by
  one.
\<close>

theorem matchProducts_partition_of_B:
  assumes "matchProducts productsA productsB options = Inr res"
  shows "set (map (sum_sourceId \<circ> productB) (matches res)) \<subseteq> set (map sourceId productsB)
         \<and> set (map (sum_sourceId \<circ> productB) (matches res))
             \<union> set (map sum_sourceId (unmatchedB res)) = set (map sourceId productsB)
         \<and> set (map (sum_sourceId \<circ> productB) (matches res))
             \<inter> set (map sum_sourceId (unmatchedB res)) = {}
         \<and> unmatchedB res
             = map summarizeProduct
                 (filter (\<lambda>p. sourceId p \<notin> set (map (sum_sourceId \<circ> productB) (matches res)))
                    productsB)
         \<and> (distinct (map sourceId productsB)
              \<longrightarrow> distinct (map sum_sourceId (unmatchedB res)))
         \<and> length (matches res) + length (unmatchedA res) = length productsA"
proof -
  let ?opts = "resolveOptions options"
  let ?out = "List.map_filter (stepOutcome ?opts productsB) productsA"
  let ?ids = "set (map (sum_sourceId \<circ> productB) (matches res))"
  note res = matchProducts_result [OF assms]
  have ids: "set (map snd ?out) = ?ids"
    by (simp add: res(1) stepOutcome_ids)
  have sub: "?ids \<subseteq> set (map sourceId productsB)"
    using stepOutcome_id_in_B [of _ ?opts productsB productsA] unfolding ids by blast
  have unm: "unmatchedB res
      = map summarizeProduct (filter (\<lambda>p. sourceId p \<notin> ?ids) productsB)"
    using res(3) unfolding ids .
  have sid: "sum_sourceId \<circ> summarizeProduct = sourceId"
    by (rule ext) (simp add: summarizeProduct_def)
  have unm_ids: "map sum_sourceId (unmatchedB res)
      = map sourceId (filter (\<lambda>p. sourceId p \<notin> ?ids) productsB)"
    by (simp add: unm sid)
  have union: "?ids \<union> set (map sum_sourceId (unmatchedB res)) = set (map sourceId productsB)"
    using sub unfolding unm_ids by auto
  have disj: "?ids \<inter> set (map sum_sourceId (unmatchedB res)) = {}"
    unfolding unm_ids by force
  have dist: "distinct (map sourceId productsB)
      \<longrightarrow> distinct (map sum_sourceId (unmatchedB res))"
    unfolding unm_ids by (simp add: distinct_map_filter)
  have len: "length (matches res) + length (unmatchedA res) = length productsA"
    using map_filter_length [of "stepOutcome ?opts productsB" productsA]
    by (simp add: res(1) res(2))
  from sub union disj unm dist len show ?thesis by blast
qed

theorem matchProducts_partition_of_B_witness:
  "\<exists>res. matchProducts [exA, exA2, exQ] [exB2, exB] (givenOptions 0.82 0.6) = Inr res
     \<and> map (sum_sourceId \<circ> productB) (matches res) = [''b2'', ''b2'']
     \<and> map sum_sourceId (unmatchedB res) = [''b1'']
     \<and> set (map (sum_sourceId \<circ> productB) (matches res))
             \<union> set (map sum_sourceId (unmatchedB res)) = set (map sourceId [exB2, exB])
     \<and> set (map (sum_sourceId \<circ> productB) (matches res))
             \<inter> set (map sum_sourceId (unmatchedB res)) = {}
     \<and> distinct (map sourceId [exB2, exB])
     \<and> distinct (map sum_sourceId (unmatchedB res))
     \<and> length (matches res) + length (unmatchedA res) = length [exA, exA2, exQ]"
proof -
  define fs where
    "fs = \<lparr>upc_score = Fin 0, name_score = Fin 1, brand_score = Fin 0,
           size_score = Fin 0, category_score = Fin 0, price_score = Fin 0,
           dietPenalty = Fin 0\<rparr>"
  define res where
    "res = \<lparr>matches = [\<lparr>productA = summarizeProduct exA, productB = summarizeProduct exB2,
                         confidence = Fin 1, decision = Auto, featureScores = fs\<rparr>,
                       \<lparr>productA = summarizeProduct exA2, productB = summarizeProduct exB2,
                         confidence = Fin 1, decision = Auto, featureScores = fs\<rparr>],
        unmatchedA = [summarizeProduct exQ], unmatchedB = [summarizeProduct exB]\<rparr>"
  have run: "matchProducts [exA, exA2, exQ] [exB2, exB] (givenOptions 0.82 0.6) = Inr res"
    unfolding res_def fs_def by code_simp
  have f1: "map (sum_sourceId \<circ> productB) (matches res) = [''b2'', ''b2'']"
    and f2: "map sum_sourceId (unmatchedB res) = [''b1'']"
    and f3: "distinct (map sourceId [exB2, exB])"
    by (simp_all add: res_def summarizeProduct_def exB_def exB2_def exampleProduct_def)
  note p = matchProducts_partition_of_B [OF run]
  from p have p1: "set (map (sum_sourceId \<circ> productB) (matches res))
             \<union> set (map sum_sourceId (unmatchedB res)) = set (map sourceId [exB2, exB])"
    by (elim conjE)
  from p have p2: "set (map (sum_sourceId \<circ> productB) (matches res))
             \<inter> set (map sum_sourceId (unmatchedB res)) = {}"
    by (elim conjE)
  from p f3 have p3: "distinct (map sum_sourceId (unmatchedB res))"
    by (elim conjE) (erule (1) mp)
  from p have p4: "length (matches res) + length (unmatchedA res) = length [exA, exA2, exQ]"
    by (elim conjE)
  show ?thesis
    by (rule exI [of _ res]) (intro conjI run f1 f2 f3 p1 p2 p3 p4)
qed

text \<open>
  The claim as stated fails: two A entities that both match the one B entity give two
  records with the same matched B identifier.
\<close>

theorem matchProducts_shared_B_counterexample:
  "matchProducts [exA, exA2] [exB2] (givenOptions 0.82 0.6) =
     Inr \<lparr>matches =
            [\<lparr>productA = summarizeProduct exA, productB = summarizeProduct exB2,
              confidence = Fin 1, decision = Auto,
              featureScores = \<lparr>upc_score = Fin 0, name_score = Fin 1, brand_score = Fin 0,
                 size_score = Fin 0, category_score = Fin 0, price_score = Fin 0,
                 dietPenalty = Fin 0\<rparr>\<rparr>,
             \<lparr>productA = summarizeProduct exA2, productB = summarizeProduct exB2,
              confidence = Fin 1, decision = Auto,
              featureScores = \<lparr>upc_score = Fin 0, name_score = Fin 1, brand_score = Fin 0,
                 size_score = Fin 0, category_score = Fin 0, price_score = Fin 0,
                 dietPenalty = Fin 0\<rparr>\<rparr>],
           unmatchedA = [], unmatchedB = []\<rparr>
   \<and> sum_sourceId (summarizeProduct exB2) = ''b2''"
  by code_simp

section \<open>Scoring an entity against itself\<close>

lemma update_count_sum:
  "sum_list (map snd (AList.update k ((case map_of m k of None \<Rightarrow> 0 | Some n \<Rightarrow> n) + 1) m))
     = sum_list (map snd m) + (1::nat)"
  by (induction m) auto

lemma countOccurrences_fold_sum:
  "sum_list (map snd
      (foldl (\<lambda>counts v.
                AList.update v ((case map_of counts v of None \<Rightarrow> 0 | Some n \<Rightarrow> n) + 1) counts)
             m vs))
     = sum_list (map snd m) + length vs"
proof (induction vs arbitrary: m)
  case Nil
  show ?case by simp
next
  case (Cons v vs)
  show ?case by (simp only: foldl_Cons Cons.IH update_count_sum) simp
qed

lemma countOccurrences_fold_distinct:
  "distinct (map fst m) \<Longrightarrow>
   distinct (map fst
      (foldl (\<lambda>counts v.
                AList.update v ((case map_of counts v of None \<Rightarrow> 0 | Some n \<Rightarrow> n) + 1) counts)
             m vs))"
proof (induction vs arbitrary: m)
  case Nil
  then show ?case by simp
next
  case (Cons v vs)
  show ?case
    by (simp only: foldl_Cons) (rule Cons.IH, rule distinct_update, rule Cons.prems)
qed

lemma countOccurrences_sum: "sum_list (map snd (countOccurrences vs)) = length vs"
  using countOccurrences_fold_sum [of "[]" vs] by (simp add: countOccurrences_def)

lemma countOccurrences_distinct: "distinct (map fst (countOccurrences vs))"
  unfolding countOccurrences_def by (rule countOccurrences_fold_distinct) simp

lemma intersection_self:
  assumes "\<And>g c. (g, c) \<in> set xs \<Longrightarrow> map_of al g = Some c"
  shows "foldl (\<lambda>acc (gram, countA).
                  (case map_of al gram of
                     None \<Rightarrow> acc
                   | Some countB \<Rightarrow> if countB = 0 then acc else acc + min countA countB))
               acc0 xs
         = (acc0::nat) + sum_list (map snd xs)"
  using assms
proof (induction xs arbitrary: acc0)
  case Nil
  show ?case by simp
next
  case (Cons x xs)
  obtain g c where x: "x = (g, c)" by (cases x)
  from Cons.prems [of g c] x have look: "map_of al g = Some c" by simp
  have rest: "\<And>g c. (g, c) \<in> set xs \<Longrightarrow> map_of al g = Some c"
    using Cons.prems by simp
  show ?case
    by (simp only: foldl_Cons x prod.case look option.case Cons.IH [OF rest])
       (simp add: min_def)
qed

lemma scoreCharacterBigram_self:
  "scoreCharacterBigram x x = (if buildBigrams x = [] then Fin 0 else Fin 1)"
proof (cases "buildBigrams x = []")
  case True
  then show ?thesis by (simp add: scoreCharacterBigram_def)
next
  case False
  let ?counts = "countOccurrences (buildBigrams x)"
  have "\<And>g c. (g, c) \<in> set ?counts \<Longrightarrow> map_of ?counts g = Some c"
    using countOccurrences_distinct by (simp add: map_of_eq_Some_iff)
  from intersection_self [of ?counts ?counts 0, OF this]
  have inter: "foldl (\<lambda>acc (gram, countA).
                  (case map_of ?counts gram of
                     None \<Rightarrow> acc
                   | Some countB \<Rightarrow> if countB = 0 then acc else acc + min countA countB))
               0 ?counts
         = length (buildBigrams x)"
    by (simp add: countOccurrences_sum)
  from False have "length (buildBigrams x) > 0" by simp
  then have "js_div (Fin (real (2 * length (buildBigrams x))))
               (Fin (real (length (buildBigrams x) + length (buildBigrams x)))) = Fin 1"
    by simp
  with False show ?thesis
    unfolding scoreCharacterBigram_def Let_def inter by simp
qed

lemma scoreNameTokens_self:
  assumes "distinct ts"
  shows "scoreNameTokens ts ts = (if ts = [] then Fin 0 else Fin 1)"
proof (cases "ts = []")
  case True
  then show ?thesis by (simp add: scoreNameTokens_def)
next
  case False
  have f: "filter (\<lambda>token. token \<in> set ts) ts = ts" by simp
  have "remdups (ts @ ts) = remdups ts" by (simp add: remdups_append)
  with assms have r: "remdups (ts @ ts) = ts" by (simp add: distinct_remdups_id)
  from False show ?thesis
    unfolding scoreNameTokens_def Let_def f r by simp
qed

text \<open>
  With a repeated token the intersection counts the repetition and the union does not
  (\<^verbatim>\<open>setA\<close> is built and not used), so the token score leaves the unit interval.
\<close>

lemma scoreNameTokens_repeated_token_example:
  "scoreNameTokens [''mac'', ''mac''] [''mac'', ''mac''] = Fin 2"
  by code_simp

lemma scoreNameSimilarity_self:
  assumes "distinct (tokens e)"
  shows "scoreNameSimilarity e e
           = (if tokens e = [] \<and> buildBigrams (normalizedName e) = [] then Fin 0 else Fin 1)"
  unfolding scoreNameSimilarity_def Let_def scoreNameTokens_self [OF assms]
    scoreCharacterBigram_self
  by (simp add: Math_max_def)

lemma scoreUPC_self: "truthyString (scancode e) \<Longrightarrow> scoreUPC e e = Fin 1"
  by (simp add: scoreUPC_def)

lemma scoreBrand_self: "truthyString b \<Longrightarrow> scoreBrand b b = Fin 1"
  by (simp add: scoreBrand_def)

lemma scoreSize_self:
  "truthyNumber x \<Longrightarrow> finiteOrAbsent x \<Longrightarrow> scoreSize x x = Fin 1"
  by (cases x)
     (auto simp: scoreSize_def truthyNumber_def finiteOrAbsent_Some Let_def js_sub_def
        Math_max_def clamp_unit)

text \<open>An infinite size scores \<^verbatim>\<open>NaN\<close> against itself, an infinite price 0.\<close>

lemma scoreSize_infinite_self: "scoreSize (Some PosInf) (Some PosInf) = NaN"
  by code_simp

lemma scoreNumericSimilarity_infinite_self:
  "scoreNumericSimilarity (Some PosInf) (Some PosInf) (Fin 0.25) = Fin 0"
  by code_simp

lemma scoreCategory_self: "truthyString c \<Longrightarrow> scoreCategory c c = Fin 1"
  by (simp add: scoreCategory_def)

lemma scoreNumericSimilarity_self:
  "p \<noteq> None \<Longrightarrow> finiteOrAbsent p \<Longrightarrow> scoreNumericSimilarity p p (Fin 0.25) = Fin 1"
  by (cases p)
     (auto simp: scoreNumericSimilarity_def finiteOrAbsent_Some Let_def js_sub_def js_eq_Fin
        js_le_Fin split: if_splits)

lemma scannable_truthy: "scannableCode v \<Longrightarrow> truthyString v"
  by (cases v) (auto simp: scannableCode_def truthyString_def)

lemma weightedConfidence_all_one:
  assumes "idOk \<Longrightarrow> upc_score s = Fin 1" "name_score s = Fin 1"
    "brandOk \<Longrightarrow> brand_score s = Fin 1" "sizeOk \<Longrightarrow> size_score s = Fin 1"
    "categoryOk \<Longrightarrow> category_score s = Fin 1" "priceOk \<Longrightarrow> price_score s = Fin 1"
    "dietPenalty s = Fin 0"
  shows "weightedConfidence idOk True brandOk sizeOk categoryOk priceOk s = Fin 1"
  using assms by (simp add: weightedConfidence_def clamp_unit js_sub_def)

text \<open>
  Claim C5, as amended. For every entity \<open>e\<close> whose tokens are pairwise different and
  whose size and price are finite or absent, \<^verbatim>\<open>computeFeatureScores(e, e)\<close> has the
  identifier score 1 when the scan code is present and not empty, the brand score 1 when
  the brand is present and not empty, the size score 1 when the size is present and not
  0, the category score 1 when the category is present and not empty, the price score 1
  when the price is present, and the diet penalty 0. Its name score is 1 when \<open>e\<close> has
  a token or a normalized name of two characters or more, and 0 otherwise.
  \<^verbatim>\<open>computeConfidence\<close> over it is 1 in the first case; in the second it is 0 when no
  other attribute is available. What the scores are when a token is repeated, or when
  the size or the price is infinite, is left open here.
\<close>

theorem self_match_scores:
  assumes "distinct (tokens e)" and "finiteOrAbsent (sizeOz e)" and "finiteOrAbsent (price e)"
  shows "(truthyString (scancode e) \<longrightarrow> upc_score (computeFeatureScores e e) = Fin 1)
       \<and> name_score (computeFeatureScores e e)
           = (if tokens e = [] \<and> buildBigrams (normalizedName e) = [] then Fin 0 else Fin 1)
       \<and> (truthyString (brand e) \<longrightarrow> brand_score (computeFeatureScores e e) = Fin 1)
       \<and> (truthyNumber (sizeOz e) \<longrightarrow> size_score (computeFeatureScores e e) = Fin 1)
       \<and> (truthyString (category e) \<longrightarrow> category_score (computeFeatureScores e e) = Fin 1)
       \<and> (price e \<noteq> None \<longrightarrow> price_score (computeFeatureScores e e) = Fin 1)
       \<and> dietPenalty (computeFeatureScores e e) = Fin 0
       \<and> (tokens e \<noteq> [] \<or> buildBigrams (normalizedName e) \<noteq> []
            \<longrightarrow> computeConfidence (computeFeatureScores e e) e e = Fin 1)
       \<and> (tokens e = [] \<and> buildBigrams (normalizedName e) = []
            \<and> \<not> scannableCode (scancode e) \<and> \<not> truthyString (brand e)
            \<and> \<not> truthyNumber (sizeOz e) \<and> \<not> truthyString (category e) \<and> price e = None
            \<longrightarrow> computeConfidence (computeFeatureScores e e) e e = Fin 0)"
proof -
  let ?fs = "computeFeatureScores e e"
  have fields: "upc_score ?fs = scoreUPC e e" "name_score ?fs = scoreNameSimilarity e e"
    "brand_score ?fs = scoreBrand (brand e) (brand e)"
    "size_score ?fs = scoreSize (sizeOz e) (sizeOz e)"
    "category_score ?fs = scoreCategory (category e) (category e)"
    "price_score ?fs = scoreNumericSimilarity (price e) (price e) (Fin 0.25)"
    "dietPenalty ?fs = Fin 0"
    by (simp_all add: computeFeatureScores_def scoreDietPenalty_def)
  note nm = scoreNameSimilarity_self [OF assms(1)]
  have c1: "truthyString (scancode e) \<longrightarrow> upc_score ?fs = Fin 1"
    unfolding fields using scoreUPC_self by blast
  have c2: "name_score ?fs
           = (if tokens e = [] \<and> buildBigrams (normalizedName e) = [] then Fin 0 else Fin 1)"
    unfolding fields by (rule nm)
  have c3: "truthyString (brand e) \<longrightarrow> brand_score ?fs = Fin 1"
    unfolding fields using scoreBrand_self by blast
  have c4: "truthyNumber (sizeOz e) \<longrightarrow> size_score ?fs = Fin 1"
    unfolding fields using scoreSize_self assms(2) by blast
  have c5: "truthyString (category e) \<longrightarrow> category_score ?fs = Fin 1"
    unfolding fields using scoreCategory_self by blast
  have c6: "price e \<noteq> None \<longrightarrow> price_score ?fs = Fin 1"
    unfolding fields using scoreNumericSimilarity_self assms(3) by blast
  have c7: "dietPenalty ?fs = Fin 0"
    by (rule fields)
  have one: "tokens e \<noteq> [] \<or> buildBigrams (normalizedName e) \<noteq> []
               \<longrightarrow> computeConfidence ?fs e e = Fin 1"
  proof
    assume named: "tokens e \<noteq> [] \<or> buildBigrams (normalizedName e) \<noteq> []"
    show "computeConfidence ?fs e e = Fin 1"
      unfolding computeConfidence_closed_form
    proof (rule weightedConfidence_all_one)
      show "name_score ?fs = Fin 1" using named c2 by auto
      show "dietPenalty ?fs = Fin 0" by (rule c7)
      show "upc_score ?fs = Fin 1"
        if "scannableCode (scancode e) \<and> scannableCode (scancode e)"
        using that c1 scannable_truthy by blast
      show "brand_score ?fs = Fin 1" if "truthyString (brand e) \<and> truthyString (brand e)"
        using that c3 by blast
      show "size_score ?fs = Fin 1" if "truthyNumber (sizeOz e) \<and> truthyNumber (sizeOz e)"
        using that c4 by blast
      show "category_score ?fs = Fin 1"
        if "truthyString (category e) \<and> truthyString (category e)"
        using that c5 by blast
      show "price_score ?fs = Fin 1" if "price e \<noteq> None \<and> price e \<noteq> None"
        using that c6 by blast
    qed
  qed
  have zero: "tokens e = [] \<and> buildBigrams (normalizedName e) = []
        \<and> \<not> scannableCode (scancode e) \<and> \<not> truthyString (brand e)
        \<and> \<not> truthyNumber (sizeOz e) \<and> \<not> truthyString (category e) \<and> price e = None
        \<longrightarrow> computeConfidence ?fs e e = Fin 0"
    using c2 c7
    by (simp add: computeConfidence_closed_form weightedConfidence_def clamp_unit js_sub_def)
  show ?thesis
    by (intro conjI c1 c2 c3 c4 c5 c6 c7 one zero)
qed

theorem self_match_scores_witness:
  "distinct (tokens exFull) \<and> finiteOrAbsent (sizeOz exFull) \<and> finiteOrAbsent (price exFull)
   \<and> computeFeatureScores exFull exFull
       = \<lparr>upc_score = Fin 1, name_score = Fin 1, brand_score = Fin 1, size_score = Fin 1,
          category_score = Fin 1, price_score = Fin 1, dietPenalty = Fin 0\<rparr>
   \<and> computeConfidence (computeFeatureScores exFull exFull) exFull exFull = Fin 1"
proof -
  have d: "distinct (tokens exFull)" "finiteOrAbsent (sizeOz exFull)"
    "finiteOrAbsent (price exFull)"
    by (simp_all add: exFull_def finiteOrAbsent_def)
  have t: "truthyString (scancode exFull)" "truthyString (brand exFull)"
    "truthyNumber (sizeOz exFull)" "truthyString (category exFull)" "price exFull \<noteq> None"
    "tokens exFull \<noteq> []"
    by (simp_all add: exFull_def truthyString_def truthyNumber_def)
  have "computeFeatureScores exFull exFull
       = \<lparr>upc_score = upc_score (computeFeatureScores exFull exFull),
          name_score = name_score (computeFeatureScores exFull exFull),
          brand_score = brand_score (computeFeatureScores exFull exFull),
          size_score = size_score (computeFeatureScores exFull exFull),
          category_score = category_score (computeFeatureScores exFull exFull),
          price_score = price_score (computeFeatureScores exFull exFull),
          dietPenalty = dietPenalty (computeFeatureScores exFull exFull)\<rparr>"
    by simp
  with self_match_scores [OF d] t d show ?thesis by simp
qed

text \<open>
  The claim as stated fails on an entity of an empty name that has a scan code and a
  price: its name score against itself is 0, and its confidence is 6/11, neither 1 nor 0.
\<close>

theorem self_match_nameless_counterexample:
  "name_score (computeFeatureScores exNameless exNameless) = Fin 0
   \<and> computeConfidence (computeFeatureScores exNameless exNameless) exNameless exNameless
       = Fin (6 / 11)"
  by code_simp

section \<open>Strings\<close>

lemma includes_str_sublist: "includes_str s sub = sublist sub s"
proof (induction s)
  case Nil
  show ?case by simp
next
  case (Cons c cs)
  then show ?case
    by (cases sub) (simp_all add: sublist_Cons_right)
qed

lemma includes_str_set: "includes_str s sub \<Longrightarrow> set sub \<subseteq> set s"
  by (simp add: includes_str_sublist set_mono_sublist)

lemma map_of_zip_cases:
  "(case map_of (zip us ls) c of Some l \<Rightarrow> l | None \<Rightarrow> c) = c
   \<or> (case map_of (zip us ls) c of Some l \<Rightarrow> l | None \<Rightarrow> c) \<in> set ls"
proof (cases "map_of (zip us ls) c")
  case None
  then show ?thesis by simp
next
  case (Some l)
  then have "(c, l) \<in> set (zip us ls)" by (rule map_of_SomeD)
  then have "l \<in> set ls" by (rule set_zip_rightD)
  with Some show ?thesis by simp
qed

lemma map_of_zip_fixed:
  assumes "c \<notin> set us"
  shows "(case map_of (zip us ls) c of Some l \<Rightarrow> l | None \<Rightarrow> c) = c"
proof (cases "map_of (zip us ls) c")
  case None
  then show ?thesis by simp
next
  case (Some l)
  then have "(c, l) \<in> set (zip us ls)" by (rule map_of_SomeD)
  then have "c \<in> set us" by (rule set_zip_leftD)
  with assms show ?thesis by simp
qed

lemma toLowerChar_cases:
  "toLowerChar c = c \<or> toLowerChar c \<in> set ''abcdefghijklmnopqrstuvwxyz''"
  unfolding toLowerChar_def by (rule map_of_zip_cases)

lemma toLowerChar_fixed:
  "c \<notin> set ''ABCDEFGHIJKLMNOPQRSTUVWXYZ'' \<Longrightarrow> toLowerChar c = c"
  unfolding toLowerChar_def by (rule map_of_zip_fixed)

lemma upper_lower_disjoint:
  "set ''ABCDEFGHIJKLMNOPQRSTUVWXYZ'' \<inter> set ''abcdefghijklmnopqrstuvwxyz'' = {}"
  by code_simp

lemma toLowerChar_lower:
  assumes "c \<in> set ''abcdefghijklmnopqrstuvwxyz''"
  shows "toLowerChar c = c"
proof (rule toLowerChar_fixed, rule notI)
  assume "c \<in> set ''ABCDEFGHIJKLMNOPQRSTUVWXYZ''"
  from this assms
  have "c \<in> set ''ABCDEFGHIJKLMNOPQRSTUVWXYZ'' \<inter> set ''abcdefghijklmnopqrstuvwxyz''"
    by (rule IntI)
  then show False unfolding upper_lower_disjoint by (rule emptyE)
qed

lemma toLowerChar_idem: "toLowerChar (toLowerChar c) = toLowerChar c"
proof -
  from toLowerChar_cases [of c] show ?thesis
  proof
    assume "toLowerChar c = c"
    then show ?thesis by simp
  next
    assume "toLowerChar c \<in> set ''abcdefghijklmnopqrstuvwxyz''"
    then show ?thesis by (rule toLowerChar_lower)
  qed
qed

lemma toLowerCase_idem: "toLowerCase (toLowerCase s) = toLowerCase s"
  by (simp add: toLowerCase_def toLowerChar_idem)

lemma lower_letters_not_whitespace:
  "list_all (\<lambda>c. \<not> isWhitespace c) ''abcdefghijklmnopqrstuvwxyz''"
  by code_simp

lemma toLowerChar_whitespace: "isWhitespace (toLowerChar c) \<Longrightarrow> isWhitespace c"
proof -
  assume w: "isWhitespace (toLowerChar c)"
  from toLowerChar_cases [of c] show ?thesis
  proof
    assume "toLowerChar c = c"
    with w show ?thesis by simp
  next
    assume "toLowerChar c \<in> set ''abcdefghijklmnopqrstuvwxyz''"
    with lower_letters_not_whitespace have "\<not> isWhitespace (toLowerChar c)"
      unfolding list_all_iff by (rule bspec)
    with w show ?thesis by simp
  qed
qed

lemma dropWhile_none: "\<forall>c\<in>set s. \<not> P c \<Longrightarrow> dropWhile P s = s"
  by (cases s) simp_all

lemma trim_no_whitespace: "\<forall>c\<in>set s. \<not> isWhitespace c \<Longrightarrow> trim s = s"
  by (simp add: trim_def dropWhile_none)

lemma dropWhile_all: "(\<forall>c\<in>set (dropWhile P xs). P c) \<longleftrightarrow> (\<forall>c\<in>set xs. P c)"
proof
  assume a: "\<forall>c\<in>set (dropWhile P xs). P c"
  have "dropWhile P xs = []"
  proof (rule ccontr)
    assume ne: "dropWhile P xs \<noteq> []"
    then have "\<not> P (hd (dropWhile P xs))" by (rule hd_dropWhile)
    moreover from ne have "hd (dropWhile P xs) \<in> set (dropWhile P xs)" by simp
    ultimately show False using a by blast
  qed
  then show "\<forall>c\<in>set xs. P c" by (simp add: dropWhile_eq_Nil_conv)
next
  assume "\<forall>c\<in>set xs. P c"
  then show "\<forall>c\<in>set (dropWhile P xs). P c" by (auto dest: set_dropWhileD)
qed

section \<open>Brand extraction\<close>

lemma splitRuns_pieces:
  assumes "t \<in> set (splitRuns sep cur s)" and "\<forall>c\<in>set cur. \<not> sep c"
  shows "(\<forall>c\<in>set t. \<not> sep c) \<and> set t \<subseteq> set cur \<union> set s"
  using assms
proof (induction sep cur s rule: splitRuns.induct)
  case (1 sep cur)
  then show ?case by simp
next
  case (2 sep cur c cs)
  show ?case
  proof (cases "sep c")
    case True
    with "2.prems"(1) have "t = cur \<or> t \<in> set (splitRuns sep [] (dropWhile sep cs))"
      by simp
    then show ?thesis
    proof
      assume "t = cur"
      with "2.prems"(2) show ?thesis by auto
    next
      assume "t \<in> set (splitRuns sep [] (dropWhile sep cs))"
      from "2.IH"(1) [OF True this]
      have "(\<forall>c\<in>set t. \<not> sep c) \<and> set t \<subseteq> set [] \<union> set (dropWhile sep cs)"
        by simp
      moreover have "set (dropWhile sep cs) \<subseteq> set cs"
        by (auto dest: set_dropWhileD)
      ultimately show ?thesis by auto
    qed
  next
    case False
    with "2.prems"(1) have "t \<in> set (splitRuns sep (cur @ [c]) cs)" by simp
    from "2.IH"(2) [OF False this] False "2.prems"(2) show ?thesis by auto
  qed
qed

lemma splitRuns_no_piece:
  "filter (\<lambda>t. t \<noteq> []) (splitRuns sep cur s) = [] \<longleftrightarrow> cur = [] \<and> (\<forall>c\<in>set s. sep c)"
proof (induction sep cur s rule: splitRuns.induct)
  case (1 sep cur)
  show ?case by simp
next
  case (2 sep cur c cs)
  show ?case
  proof (cases "sep c")
    case True
    with "2.IH"(1) [OF True] show ?thesis by (simp add: dropWhile_all)
  next
    case False
    with "2.IH"(2) [OF False] show ?thesis by auto
  qed
qed

lemma brandTokens_empty:
  "brandTokens s = [] \<longleftrightarrow> (\<forall>c\<in>set s. isBrandSeparator c)"
  unfolding brandTokens_def isBrandSeparator_def by (simp add: splitRuns_no_piece)

lemma brandTokens_piece:
  assumes "t \<in> set (brandTokens s)"
  shows "t \<noteq> [] \<and> (\<forall>c\<in>set t. \<not> isWhitespace c) \<and> set t \<subseteq> set s"
proof -
  from assms have ne: "t \<noteq> []"
    and mem: "t \<in> set (splitRuns (\<lambda>c. isWhitespace c \<or> c = CHR '','') [] s)"
    by (simp_all add: brandTokens_def)
  from splitRuns_pieces [OF mem] ne show ?thesis by auto
qed

lemma synonym_table_entries:
  "list_all (\<lambda>(k, v). v \<noteq> [] \<and> list_ex (\<lambda>c. \<not> isBrandSeparator c) k) BRAND_SYNONYMS"
  by code_simp

lemma synonymKeys_entry:
  assumes "key \<in> set synonymKeys"
  shows "\<exists>v. map_of BRAND_SYNONYMS key = Some v \<and> v \<noteq> [] \<and> v \<in> snd ` set BRAND_SYNONYMS
             \<and> (\<exists>c\<in>set key. \<not> isBrandSeparator c)"
proof -
  from assms have "key \<in> fst ` set BRAND_SYNONYMS"
    by (simp add: synonymKeys_def)
  then have "map_of BRAND_SYNONYMS key \<noteq> None"
    by (simp only: map_of_eq_None_iff not_not)
  then obtain v where v: "map_of BRAND_SYNONYMS key = Some v" by blast
  then have mem: "(key, v) \<in> set BRAND_SYNONYMS" by (rule map_of_SomeD)
  with synonym_table_entries have "v \<noteq> [] \<and> list_ex (\<lambda>c. \<not> isBrandSeparator c) key"
    unfolding list_all_iff by blast
  moreover from mem have "v \<in> snd ` set BRAND_SYNONYMS" by force
  ultimately show ?thesis using v by (auto simp: list_ex_iff)
qed

lemma readSynonym_string:
  assumes "readSynonym k = Some (JSString v)"
  shows "v \<noteq> [] \<and> v \<in> snd ` set BRAND_SYNONYMS"
proof -
  from assms have "map_of BRAND_SYNONYMS k = Some v"
    by (auto simp: readSynonym_def split: option.splits if_splits)
  then have mem: "(k, v) \<in> set BRAND_SYNONYMS" by (rule map_of_SomeD)
  with synonym_table_entries have "v \<noteq> []"
    unfolding list_all_iff by blast
  moreover from mem have "v \<in> snd ` set BRAND_SYNONYMS" by force
  ultimately show ?thesis by simp
qed

lemma readSynonym_object:
  assumes "readSynonym k = Some (JSObject n)"
  shows "n = k \<and> k \<in> set OBJECT_PROTOTYPE_KEYS"
  using assms by (auto simp: readSynonym_def split: option.splits if_splits)

lemma canonicalizeBrand_token:
  assumes "t \<noteq> []" and "\<forall>c\<in>set t. \<not> isWhitespace c"
  shows "\<exists>v. canonicalizeBrand (Some t) = Some v \<and> truthyValue (Some v)
             \<and> (v \<in> JSString ` snd ` set BRAND_SYNONYMS
                \<or> v = JSString (toLowerCase t)
                \<or> (v = JSObject (toLowerCase t) \<and> toLowerCase t \<in> set OBJECT_PROTOTYPE_KEYS))"
proof -
  have "\<forall>c\<in>set (toLowerCase t). \<not> isWhitespace c"
    using assms(2) toLowerChar_whitespace by (auto simp: toLowerCase_def)
  then have tr: "trim (toLowerCase t) = toLowerCase t" by (rule trim_no_whitespace)
  from assms(1) have ne: "toLowerCase t \<noteq> []" by (simp add: toLowerCase_def)
  show ?thesis
  proof (cases "truthyValue (readSynonym (toLowerCase t))")
    case False
    with assms(1) tr ne show ?thesis
      by (simp add: canonicalizeBrand_def truthyValue_def)
  next
    case True
    then obtain v where v: "readSynonym (toLowerCase t) = Some v"
      by (cases "readSynonym (toLowerCase t)") (simp_all add: truthyValue_def)
    from True v assms(1) tr have c: "canonicalizeBrand (Some t) = Some v"
      by (simp add: canonicalizeBrand_def)
    show ?thesis
    proof (cases v)
      case (JSString x)
      with v readSynonym_string [of "toLowerCase t" x]
      have "v \<in> JSString ` snd ` set BRAND_SYNONYMS" by simp
      with c True v show ?thesis by simp
    next
      case (JSObject n)
      with v readSynonym_object [of "toLowerCase t" n]
      have "v = JSObject (toLowerCase t) \<and> toLowerCase t \<in> set OBJECT_PROTOTYPE_KEYS"
        by simp
      with c True v show ?thesis by simp
    qed
  qed
qed

text \<open>
  What \<^verbatim>\<open>extractBrand\<close> returns: \<^verbatim>\<open>undefined\<close> exactly when the lower-cased name has no
  token; otherwise a truthy value, which is a value of the synonym table, or the first
  token, or, when the first token names a property inherited from \<^verbatim>\<open>Object.prototype\<close>,
  the function or object found there.
\<close>

lemma extractBrand_result:
  "(extractBrand nm = None \<longleftrightarrow> brandTokens (toLowerCase nm) = [])
   \<and> (\<forall>b. extractBrand nm = Some b \<longrightarrow>
          truthyValue (Some b)
          \<and> (b \<in> JSString ` snd ` set BRAND_SYNONYMS
             \<or> b = JSString (hd (brandTokens (toLowerCase nm)))
             \<or> (b = JSObject (hd (brandTokens (toLowerCase nm)))
                \<and> hd (brandTokens (toLowerCase nm)) \<in> set OBJECT_PROTOTYPE_KEYS)))"
proof (cases "find (\<lambda>key. includes_str (toLowerCase nm) key) synonymKeys")
  case (Some key)
  then have key: "key \<in> set synonymKeys" and inc: "includes_str (toLowerCase nm) key"
    by (auto simp: find_Some_iff)
  from synonymKeys_entry [OF key] obtain v c where v: "map_of BRAND_SYNONYMS key = Some v"
    and ne: "v \<noteq> []" and mem: "v \<in> snd ` set BRAND_SYNONYMS"
    and c: "c \<in> set key" "\<not> isBrandSeparator c"
    by blast
  from includes_str_set [OF inc] c have "\<not> (\<forall>c\<in>set (toLowerCase nm). isBrandSeparator c)"
    by blast
  then have tok: "brandTokens (toLowerCase nm) \<noteq> []" by (simp add: brandTokens_empty)
  from Some v have "extractBrand nm = Some (JSString v)"
    by (simp add: extractBrand_def readSynonym_def)
  with tok ne mem show ?thesis by (simp add: truthyValue_def)
next
  case None
  show ?thesis
  proof (cases "brandTokens (toLowerCase nm)")
    case Nil
    with None show ?thesis by (simp add: extractBrand_def)
  next
    case (Cons t rest)
    then have "t \<in> set (brandTokens (toLowerCase nm))" by simp
    from brandTokens_piece [OF this] have t: "t \<noteq> []" "\<forall>c\<in>set t. \<not> isWhitespace c"
      and sub: "set t \<subseteq> set (toLowerCase nm)" by blast+
    from sub have "map toLowerChar t = t"
      by (intro map_idI) (auto simp: toLowerCase_def toLowerChar_idem)
    then have low: "toLowerCase t = t" by (simp add: toLowerCase_def)
    from canonicalizeBrand_token [OF t] low obtain v where
      v: "canonicalizeBrand (Some t) = Some v" "truthyValue (Some v)"
         "v \<in> JSString ` snd ` set BRAND_SYNONYMS \<or> v = JSString t
          \<or> (v = JSObject t \<and> t \<in> set OBJECT_PROTOTYPE_KEYS)"
      by auto
    then have "firstCanonical (t # rest) = Some v"
      by simp
    with None Cons have "extractBrand nm = Some v" by (simp add: extractBrand_def)
    with Cons v show ?thesis by auto
  qed
qed

text \<open>
  Claim C10. \<^verbatim>\<open>extractBrand\<close>, and hence the brand of \<^verbatim>\<open>normalize365Record\<close> and
  \<^verbatim>\<open>normalizeHahaRecord\<close>, is \<^verbatim>\<open>undefined\<close> iff the lower-cased name has no token, and for a
  name with a token it is a defined brand, a value of the synonym table or the first
  token. The code departs from it on a name whose first token is \<^verbatim>\<open>constructor\<close>: the
  read \<^verbatim>\<open>BRAND_SYNONYMS["constructor"]\<close> finds the function inherited from
  \<^verbatim>\<open>Object.prototype\<close>, \<^verbatim>\<open>extractBrand\<close> returns it, and the two normalizers throw a
  \<^verbatim>\<open>TypeError\<close> when they lower-case it, so that no brand is produced. A name of the
  table is normalized as the claim says.
\<close>

theorem extractBrand_inherited_key:
  "extractBrand ''constructor'' = Some (JSObject ''constructor'')
   \<and> brandTokens (toLowerCase ''constructor'') = [''constructor'']
   \<and> normalize365Record_brand [(''PRDNAME'', ''Constructor Set'')]
       = Inl (TypeError ''brand.toLowerCase is not a function'')
   \<and> normalizeHahaRecord_brand [(''product_name'', ''constructor'')]
       = Inl (TypeError ''brand.toLowerCase is not a function'')
   \<and> normalize365Record_brand [(''PRDNAME'', ''Coke 12oz'')] = Inr (Some (JSString ''coca cola''))"
  by code_simp

section \<open>Name normalization\<close>

subsection \<open>The steps one by one\<close>

lemma replaceAll_matchChar:
  "replaceAll (matchChar P) rep s = concat (map (\<lambda>c. if P c then rep else [c]) s)"
  by (induction s) (simp_all add: matchChar_def)

lemma replaceAll_matchChar_id:
  "\<forall>c\<in>set s. \<not> P c \<Longrightarrow> replaceAll (matchChar P) rep s = s"
  by (induction s) (simp_all add: matchChar_def)

lemma replaceAll_no_match:
  "\<forall>n. m (drop n s) = None \<Longrightarrow> replaceAll m rep s = s"
proof (induction s)
  case Nil
  show ?case by simp
next
  case (Cons c cs)
  from Cons.prems have here: "m (c # cs) = None" by (metis drop0)
  have "\<forall>n. m (drop n cs) = None"
  proof
    fix n
    from Cons.prems have "m (drop (Suc n) (c # cs)) = None" by blast
    then show "m (drop n cs) = None" by simp
  qed
  with Cons.IH here show ?case by simp
qed

lemma space_is_whitespace: "isWhitespace (CHR '' '')"
  by (simp add: isWhitespace_def)

lemma matchWhitespaceRun_Some:
  "matchWhitespaceRun (c # cs) = Some n
     \<longleftrightarrow> isWhitespace c \<and> n = Suc (length (takeWhile isWhitespace cs))"
  by (auto simp: matchWhitespaceRun_def Let_def)

lemma matchWhitespaceRun_None:
  "matchWhitespaceRun (c # cs) = None \<longleftrightarrow> \<not> isWhitespace c"
  by (auto simp: matchWhitespaceRun_def Let_def)

lemma collapse_Cons:
  "replaceAll matchWhitespaceRun '' '' (c # cs) =
     (if isWhitespace c
      then CHR '' '' # replaceAll matchWhitespaceRun '' '' (dropWhile isWhitespace cs)
      else c # replaceAll matchWhitespaceRun '' '' cs)"
proof (cases "isWhitespace c")
  case True
  then have "matchWhitespaceRun (c # cs) = Some (Suc (length (takeWhile isWhitespace cs)))"
    by (simp add: matchWhitespaceRun_Some)
  with True show ?thesis by (simp add: dropWhile_eq_drop)
next
  case False
  then have "matchWhitespaceRun (c # cs) = None" by (simp add: matchWhitespaceRun_None)
  with False show ?thesis by simp
qed

lemma collapse_head:
  assumes "s = [] \<or> \<not> isWhitespace (hd s)"
  shows "replaceAll matchWhitespaceRun '' '' s = []
         \<or> \<not> isWhitespace (hd (replaceAll matchWhitespaceRun '' '' s))"
  using assms by (cases s) (simp, simp add: collapse_Cons del: replaceAll.simps)

lemma dropWhile_head: "dropWhile P xs = [] \<or> \<not> P (hd (dropWhile P xs))"
  using hd_dropWhile [of P xs] by blast

lemma singleSpaced_Cons:
  "singleSpaced (a # s) \<longleftrightarrow> (s = [] \<or> \<not> (isWhitespace a \<and> isWhitespace (hd s))) \<and> singleSpaced s"
  by (cases s) auto

lemma collapse_singleSpaced:
  "singleSpaced (replaceAll matchWhitespaceRun '' '' s)"
proof (induction "length s" arbitrary: s rule: less_induct)
  case less
  show ?case
  proof (cases s)
    case Nil
    then show ?thesis by simp
  next
    case (Cons c cs)
    show ?thesis
    proof (cases "isWhitespace c")
      case True
      have "length (dropWhile isWhitespace cs) < length s"
        using Cons by (simp add: less_Suc_eq_le length_dropWhile_le)
      then have "singleSpaced (replaceAll matchWhitespaceRun '' '' (dropWhile isWhitespace cs))"
        by (rule less.hyps)
      moreover from collapse_head [OF dropWhile_head [of isWhitespace cs]]
      have "replaceAll matchWhitespaceRun '' '' (dropWhile isWhitespace cs) = []
            \<or> \<not> isWhitespace (hd (replaceAll matchWhitespaceRun '' '' (dropWhile isWhitespace cs)))" .
      ultimately show ?thesis
        unfolding Cons collapse_Cons using True by (auto simp: singleSpaced_Cons)
    next
      case False
      have "singleSpaced (replaceAll matchWhitespaceRun '' '' cs)"
        by (rule less.hyps) (simp add: Cons)
      with False show ?thesis
        unfolding Cons collapse_Cons by (auto simp: singleSpaced_Cons)
    qed
  qed
qed

lemma collapse_chars:
  "c \<in> set (replaceAll matchWhitespaceRun '' '' s) \<Longrightarrow>
     c = CHR '' '' \<or> (c \<in> set s \<and> \<not> isWhitespace c)"
proof (induction "length s" arbitrary: s rule: less_induct)
  case less
  show ?case
  proof (cases s)
    case Nil
    with less.prems show ?thesis by simp
  next
    case (Cons d ds)
    show ?thesis
    proof (cases "isWhitespace d")
      case True
      with less.prems Cons have
        "c = CHR '' '' \<or> c \<in> set (replaceAll matchWhitespaceRun '' '' (dropWhile isWhitespace ds))"
        by (simp add: collapse_Cons del: replaceAll.simps)
      then show ?thesis
      proof
        assume "c = CHR '' ''" then show ?thesis by simp
      next
        assume mem: "c \<in> set (replaceAll matchWhitespaceRun '' '' (dropWhile isWhitespace ds))"
        have "length (dropWhile isWhitespace ds) < length s"
          using Cons by (simp add: less_Suc_eq_le length_dropWhile_le)
        from less.hyps [OF this mem] Cons show ?thesis
          by (auto dest: set_dropWhileD)
      qed
    next
      case False
      with less.prems Cons have "c = d \<or> c \<in> set (replaceAll matchWhitespaceRun '' '' ds)"
        by (simp add: collapse_Cons del: replaceAll.simps)
      then show ?thesis
      proof
        assume "c = d" with False Cons show ?thesis by simp
      next
        assume mem: "c \<in> set (replaceAll matchWhitespaceRun '' '' ds)"
        have "length ds < length s" using Cons by simp
        from less.hyps [OF this mem] Cons show ?thesis by auto
      qed
    qed
  qed
qed

lemma trim_take_drop: "\<exists>i j. trim s = take j (drop i s)"
proof -
  define u where "u = dropWhile isWhitespace s"
  have u: "u = drop (length (takeWhile isWhitespace s)) s"
    by (simp add: u_def dropWhile_eq_drop)
  have "trim s = rev (dropWhile isWhitespace (rev u))" by (simp add: trim_def u_def)
  also have "\<dots> = rev (drop (length (takeWhile isWhitespace (rev u))) (rev u))"
    by (simp add: dropWhile_eq_drop)
  also have "\<dots> = take (length u - length (takeWhile isWhitespace (rev u))) u"
    by (simp add: rev_drop)
  finally show ?thesis unfolding u by blast
qed

lemma trim_idem: "trim (trim s) = trim s"
proof -
  define u where "u = dropWhile isWhitespace s"
  define v where "v = dropWhile isWhitespace (rev u)"
  have t: "trim s = rev v" by (simp add: trim_def u_def v_def)
  have "dropWhile isWhitespace (rev v) = rev v"
  proof (cases "rev v = []")
    case True
    then show ?thesis by simp
  next
    case False
    have "suffix v (rev u)" unfolding v_def by (rule suffix_dropWhile)
    then obtain w where w: "rev u = w @ v" by (auto simp: suffix_def)
    then have "u = rev v @ rev w" by (metis rev_append rev_rev_ident)
    with False have hd: "hd (rev v) = hd u" by simp
    from False have "u \<noteq> []" using \<open>u = rev v @ rev w\<close> by auto
    then have "\<not> isWhitespace (hd u)" unfolding u_def by (rule hd_dropWhile)
    with hd False show ?thesis by (cases "rev v") simp_all
  qed
  note a = this
  have b: "dropWhile isWhitespace v = v"
    unfolding v_def by simp
  have "trim (rev v) = rev (dropWhile isWhitespace (rev (dropWhile isWhitespace (rev v))))"
    by (simp only: trim_def)
  also have "\<dots> = rev v"
    by (simp only: a b rev_rev_ident)
  finally show ?thesis by (simp only: t)
qed

lemma singleSpaced_drop: "singleSpaced s \<Longrightarrow> singleSpaced (drop n s)"
proof (induction n arbitrary: s)
  case 0
  then show ?case by simp
next
  case (Suc n)
  then show ?case by (cases s) (simp_all add: singleSpaced_Cons)
qed

lemma singleSpaced_take: "singleSpaced s \<Longrightarrow> singleSpaced (take n s)"
proof (induction s arbitrary: n)
  case Nil
  show ?case by simp
next
  case (Cons a s)
  show ?case
  proof (cases n)
    case 0
    then show ?thesis by simp
  next
    case (Suc k)
    from Cons.prems have ss: "singleSpaced s"
      and a: "s = [] \<or> \<not> (isWhitespace a \<and> isWhitespace (hd s))"
      by (simp_all add: singleSpaced_Cons)
    from Cons.IH [OF ss] have "singleSpaced (take k s)" .
    moreover have "take k s = [] \<or> \<not> (isWhitespace a \<and> isWhitespace (hd (take k s)))"
      using a by (cases s; cases k) auto
    ultimately show ?thesis by (simp add: Suc singleSpaced_Cons)
  qed
qed

lemma set_trim: "set (trim s) \<subseteq> set s"
proof -
  from trim_take_drop [of s] obtain i j where "trim s = take j (drop i s)" by blast
  then show ?thesis by (metis set_drop_subset set_take_subset subset_trans)
qed

lemma singleSpaced_trim: "singleSpaced s \<Longrightarrow> singleSpaced (trim s)"
proof -
  assume s: "singleSpaced s"
  from trim_take_drop [of s] obtain i j where t: "trim s = take j (drop i s)" by blast
  from s show ?thesis unfolding t by (intro singleSpaced_take singleSpaced_drop)
qed

lemma sublist_trim: "sublist w (trim s) \<Longrightarrow> sublist w s"
proof -
  assume w: "sublist w (trim s)"
  from trim_take_drop [of s] obtain i j where t: "trim s = take j (drop i s)" by blast
  have "sublist (take j (drop i s)) (drop i s)" by (rule sublist_take)
  moreover have "sublist (drop i s) s" by (rule sublist_drop)
  ultimately have "sublist (trim s) s" unfolding t by (rule sublist_order.order.trans)
  with w show ?thesis by (rule sublist_order.order.trans)
qed

lemma normalizeName_steps:
  "normalizeName v = trim (replaceAll matchWhitespaceRun '' '' (nameSteps v))"
  by (simp add: normalizeName_def nameSteps_def Let_def)

lemma nameSteps_chars: "c \<in> set (nameSteps v) \<Longrightarrow> isLowerAlnum c \<or> isWhitespace c"
  unfolding nameSteps_def replaceAll_matchChar [of "\<lambda>c. \<not> isLowerAlnum c \<and> \<not> isWhitespace c"]
  by (auto simp: space_is_whitespace split: if_splits)

lemma normalizeName_chars: "normalizedChars (normalizeName v)"
proof -
  have "isLowerAlnum c \<or> c = CHR '' ''" if "c \<in> set (normalizeName v)" for c
  proof -
    from that set_trim have "c \<in> set (replaceAll matchWhitespaceRun '' '' (nameSteps v))"
      unfolding normalizeName_steps by blast
    from collapse_chars [OF this] nameSteps_chars show ?thesis by blast
  qed
  then show ?thesis by (simp add: normalizedChars_def list_all_iff)
qed

lemma normalizeName_singleSpaced: "singleSpaced (normalizeName v)"
  unfolding normalizeName_steps by (rule singleSpaced_trim) (rule collapse_singleSpaced)

lemma normalizeName_trimmed: "trim (normalizeName v) = normalizeName v"
  unfolding normalizeName_steps by (rule trim_idem)

lemma alnum_facts:
  "list_all (\<lambda>c. c \<notin> set ''ABCDEFGHIJKLMNOPQRSTUVWXYZ'' \<and> c \<noteq> CHR ''.'' \<and> c \<noteq> CHR ''-''
                  \<and> \<not> isWhitespace c)
     ''abcdefghijklmnopqrstuvwxyz0123456789''"
  by code_simp

lemma isLowerAlnum_facts:
  assumes "isLowerAlnum c"
  shows "c \<notin> set ''ABCDEFGHIJKLMNOPQRSTUVWXYZ''" "c \<noteq> CHR ''.''" "c \<noteq> CHR ''-''"
    "\<not> isWhitespace c"
proof -
  from assms have "c \<in> set ''abcdefghijklmnopqrstuvwxyz0123456789''"
    by (simp only: isLowerAlnum_def)
  with alnum_facts have
    "c \<notin> set ''ABCDEFGHIJKLMNOPQRSTUVWXYZ'' \<and> c \<noteq> CHR ''.'' \<and> c \<noteq> CHR ''-''
       \<and> \<not> isWhitespace c"
    unfolding list_all_iff by (rule bspec)
  then show "c \<notin> set ''ABCDEFGHIJKLMNOPQRSTUVWXYZ''" "c \<noteq> CHR ''.''" "c \<noteq> CHR ''-''"
    "\<not> isWhitespace c"
    by blast+
qed

lemma space_facts:
  "CHR '' '' \<notin> set ''ABCDEFGHIJKLMNOPQRSTUVWXYZ''" "CHR '' '' \<noteq> CHR ''.''"
  "CHR '' '' \<noteq> CHR ''-''"
  by simp_all

lemma normalizedChars_D:
  assumes "normalizedChars s" and "c \<in> set s"
  shows "c \<notin> set ''ABCDEFGHIJKLMNOPQRSTUVWXYZ''" "c \<noteq> CHR ''.''" "c \<noteq> CHR ''-''"
    "isLowerAlnum c \<or> isWhitespace c" "isWhitespace c \<longrightarrow> c = CHR '' ''"
proof -
  from assms have d: "isLowerAlnum c \<or> c = CHR '' ''"
    by (simp add: normalizedChars_def list_all_iff)
  from d isLowerAlnum_facts(1) space_facts(1) show "c \<notin> set ''ABCDEFGHIJKLMNOPQRSTUVWXYZ''"
    by blast
  from d isLowerAlnum_facts(2) space_facts(2) show "c \<noteq> CHR ''.''" by blast
  from d isLowerAlnum_facts(3) space_facts(3) show "c \<noteq> CHR ''-''" by blast
  from d space_is_whitespace show "isLowerAlnum c \<or> isWhitespace c" by blast
  from d isLowerAlnum_facts(4) show "isWhitespace c \<longrightarrow> c = CHR '' ''" by blast
qed

lemma toLowerCase_normalized: "normalizedChars s \<Longrightarrow> toLowerCase s = s"
  unfolding toLowerCase_def
  by (intro map_idI toLowerChar_fixed) (rule normalizedChars_D(1))

lemma collapse_id:
  assumes "singleSpaced s" and "\<forall>c\<in>set s. isWhitespace c \<longrightarrow> c = CHR '' ''"
  shows "replaceAll matchWhitespaceRun '' '' s = s"
  using assms
proof (induction s)
  case Nil
  show ?case by simp
next
  case (Cons c cs)
  from Cons.prems have ss: "singleSpaced cs" and ws: "\<forall>c\<in>set cs. isWhitespace c \<longrightarrow> c = CHR '' ''"
    by (simp_all add: singleSpaced_Cons)
  note ih = Cons.IH [OF ss ws]
  show ?case
  proof (cases "isWhitespace c")
    case False
    with ih show ?thesis by (simp add: collapse_Cons del: replaceAll.simps)
  next
    case True
    with Cons.prems have c: "c = CHR '' ''" by simp
    from True Cons.prems(1) have "cs = [] \<or> \<not> isWhitespace (hd cs)"
      by (simp add: singleSpaced_Cons)
    then have "dropWhile isWhitespace cs = cs" by (cases cs) auto
    with True c ih show ?thesis by (simp add: collapse_Cons del: replaceAll.simps)
  qed
qed

lemma normalizedChars_drop: "normalizedChars s \<Longrightarrow> normalizedChars (drop n s)"
  unfolding normalizedChars_def list_all_iff by (auto dest: in_set_dropD)

lemma prefix_drop_sublist: "prefix w (drop n s) \<Longrightarrow> sublist w s"
proof -
  assume "prefix w (drop n s)"
  then have "sublist w (drop n s)" by (rule prefix_imp_sublist)
  moreover have "sublist (drop n s) s" by (rule sublist_drop)
  ultimately show ?thesis by (rule sublist_order.order.trans)
qed

lemma singleSpaced_run:
  assumes "singleSpaced s"
  shows "takeWhile isWhitespace s = [] \<or> takeWhile isWhitespace s = [hd s]"
proof (cases s)
  case Nil
  then show ?thesis by simp
next
  case (Cons a r)
  show ?thesis
  proof (cases "isWhitespace a")
    case False
    with Cons show ?thesis by simp
  next
    case True
    with assms Cons have "r = [] \<or> \<not> isWhitespace (hd r)"
      by (simp add: singleSpaced_Cons)
    then have "takeWhile isWhitespace r = []" by (cases r) auto
    with True Cons show ?thesis by simp
  qed
qed

lemma matchFlOz_normalized:
  assumes nc: "normalizedChars t" and ss: "singleSpaced t" and m: "matchFlOz t \<noteq> None"
  shows "prefix ''floz'' t \<or> prefix ''fl oz'' t"
proof -
  from m have p: "prefix ''fl'' t"
    by (auto simp: matchFlOz_def split: if_splits)
  then obtain r1 where t: "t = CHR ''f'' # CHR ''l'' # r1"
    by (auto simp: prefix_def)
  have nodot: "\<not> prefix ''.'' r1"
  proof
    assume "prefix ''.'' r1"
    then have "CHR ''.'' \<in> set t" by (auto simp: t prefix_def)
    with normalizedChars_D(2) [OF nc] show False by blast
  qed
  from ss have ss1: "singleSpaced r1"
    by (simp add: t singleSpaced_Cons)
  from m nodot have oz: "prefix ''oz'' (drop (length (takeWhile isWhitespace r1)) r1)"
    by (auto simp: matchFlOz_def t Let_def split: if_splits)
  from singleSpaced_run [OF ss1] show ?thesis
  proof
    assume "takeWhile isWhitespace r1 = []"
    with oz have "prefix ''oz'' r1" by simp
    then show ?thesis by (simp add: t)
  next
    assume one: "takeWhile isWhitespace r1 = [hd r1]"
    then have ne: "r1 \<noteq> []" by auto
    then obtain a r where r1: "r1 = a # r" by (cases r1) auto
    from one r1 have "isWhitespace a" by (auto split: if_splits)
    moreover have "a \<in> set t" by (simp add: t r1)
    ultimately have a: "a = CHR '' ''" using normalizedChars_D(5) [OF nc] by blast
    from oz one r1 have "prefix ''oz'' r" by simp
    then show ?thesis by (simp add: t r1 a)
  qed
qed

lemma replaceAll_matchFlOz_id:
  assumes nc: "normalizedChars s" and ss: "singleSpaced s"
    and a: "\<not> sublist ''floz'' s" and b: "\<not> sublist ''fl oz'' s"
  shows "replaceAll matchFlOz ''oz'' s = s"
proof (rule replaceAll_no_match, rule allI, rule ccontr)
  fix n
  assume "matchFlOz (drop n s) \<noteq> None"
  from matchFlOz_normalized [OF normalizedChars_drop [OF nc] singleSpaced_drop [OF ss] this]
  have "prefix ''floz'' (drop n s) \<or> prefix ''fl oz'' (drop n s)" .
  then have "sublist ''floz'' s \<or> sublist ''fl oz'' s"
    using prefix_drop_sublist by blast
  with a b show False by blast
qed

lemma matchOunces_prefix: "matchOunces t \<noteq> None \<longleftrightarrow> prefix ''ounce'' t"
  by (auto simp: matchOunces_def prefix_def)

lemma replaceAll_matchOunces_id:
  assumes "\<not> sublist ''ounce'' s"
  shows "replaceAll matchOunces ''oz'' s = s"
proof (rule replaceAll_no_match, rule allI, rule ccontr)
  fix n
  assume "matchOunces (drop n s) \<noteq> None"
  then have "prefix ''ounce'' (drop n s)" by (simp only: matchOunces_prefix)
  then have "sublist ''ounce'' s" by (rule prefix_drop_sublist)
  with assms show False by blast
qed

lemma replaceAll_matchOzDot_id:
  assumes "normalizedChars s"
  shows "replaceAll matchOzDot ''oz'' s = s"
proof (rule replaceAll_no_match, rule allI, rule ccontr)
  fix n
  assume "matchOzDot (drop n s) \<noteq> None"
  then have "prefix ''oz.'' (drop n s)" by (auto simp: matchOzDot_def split: if_splits)
  then have "CHR ''.'' \<in> set (drop n s)" by (auto simp: prefix_def)
  then have "CHR ''.'' \<in> set s" by (rule in_set_dropD)
  with normalizedChars_D(2) [OF assms] show False by blast
qed

subsection \<open>No \<^verbatim>\<open>ounce\<close> is left in a normalized name\<close>

lemma replaceAll_prefix_copied:
  assumes "rep \<noteq> []" and "hd rep \<notin> set p" and "prefix p (replaceAll m rep s)"
  shows "prefix p s"
  using assms(2,3)
proof (induction s arbitrary: p)
  case Nil
  then show ?case by simp
next
  case (Cons c cs)
  show ?case
  proof (cases p)
    case Nil
    then show ?thesis by simp
  next
    case p: (Cons a p')
    show ?thesis
    proof (cases "m (c # cs)")
      case (Some n)
      with Cons.prems(2) assms(1) p have "a = hd rep"
        by (cases rep) auto
      with Cons.prems(1) p show ?thesis by simp
    next
      case None
      with Cons.prems(2) p have "a = c" and "prefix p' (replaceAll m rep cs)" by auto
      moreover from Cons.prems(1) p have "hd rep \<notin> set p'" by simp
      ultimately show ?thesis using Cons.IH [of p'] p by simp
    qed
  qed
qed

lemma replaceAll_sublist_back:
  assumes rep: "rep \<noteq> []" and w: "w \<noteq> []" and hd: "hd rep \<notin> set (tl w)"
    and inside: "\<And>r. sublist w (rep @ r) \<Longrightarrow> sublist w r"
    and sub: "sublist w (replaceAll m rep s)"
  shows "sublist w s"
  using sub
proof (induction "length s" arbitrary: s rule: less_induct)
  case less
  show ?case
  proof (cases s)
    case Nil
    with less.prems w show ?thesis by simp
  next
    case (Cons c cs)
    show ?thesis
    proof (cases "m (c # cs)")
      case (Some n)
      with less.prems Cons have "sublist w (rep @ replaceAll m rep (drop (n - 1) cs))" by simp
      then have "sublist w (replaceAll m rep (drop (n - 1) cs))" by (rule inside)
      moreover have "length (drop (n - 1) cs) < length s" by (simp add: Cons)
      ultimately have "sublist w (drop (n - 1) cs)" by (rule less.hyps [rotated])
      moreover have "sublist (drop (n - 1) cs) cs" by (rule sublist_drop)
      ultimately have "sublist w cs" by (rule sublist_order.order.trans)
      then show ?thesis by (simp add: Cons sublist_Cons_right)
    next
      case None
      with less.prems Cons have "sublist w (c # replaceAll m rep cs)" by simp
      then have "prefix w (c # replaceAll m rep cs) \<or> sublist w (replaceAll m rep cs)"
        by (simp only: sublist_Cons_right)
      then show ?thesis
      proof
        assume "sublist w (replaceAll m rep cs)"
        moreover have "length cs < length s" by (simp add: Cons)
        ultimately have "sublist w cs" by (rule less.hyps [rotated])
        then show ?thesis by (simp add: Cons sublist_Cons_right)
      next
        assume p: "prefix w (c # replaceAll m rep cs)"
        from w obtain a w' where ww: "w = a # w'" by (cases w) auto
        with p have "a = c" and "prefix w' (replaceAll m rep cs)" by auto
        moreover from hd ww have "hd rep \<notin> set w'" by simp
        ultimately have "prefix w' cs" using replaceAll_prefix_copied [OF rep] by blast
        with \<open>a = c\<close> ww have "prefix w (c # cs)" by simp
        then show ?thesis by (simp add: Cons)
      qed
    qed
  qed
qed

lemma ounce_not_inside_oz: "sublist ''ounce'' (''oz'' @ r) \<Longrightarrow> sublist ''ounce'' r"
  by (simp add: sublist_Cons_right)

lemma ounce_not_inside_space: "sublist ''ounce'' ('' '' @ r) \<Longrightarrow> sublist ''ounce'' r"
  by (simp add: sublist_Cons_right)

lemma ounce_after_oz:
  "sublist ''ounce'' (replaceAll m ''oz'' s) \<Longrightarrow> sublist ''ounce'' s"
  by (rule replaceAll_sublist_back [of "''oz''" "''ounce''"])
     (simp_all add: ounce_not_inside_oz del: append_Cons)

lemma ounce_after_space:
  "sublist ''ounce'' (replaceAll m '' '' s) \<Longrightarrow> sublist ''ounce'' s"
  by (rule replaceAll_sublist_back [of "'' ''" "''ounce''"])
     (simp_all add: ounce_not_inside_space del: append_Cons)

lemma ounces_removed: "\<not> sublist ''ounce'' (replaceAll matchOunces ''oz'' s)"
proof (induction "length s" arbitrary: s rule: less_induct)
  case less
  show ?case
  proof (cases s)
    case Nil
    then show ?thesis by simp
  next
    case (Cons c cs)
    show ?thesis
    proof (cases "matchOunces (c # cs)")
      case (Some n)
      have "length (drop (n - 1) cs) < length s" by (simp add: Cons)
      then have "\<not> sublist ''ounce'' (replaceAll matchOunces ''oz'' (drop (n - 1) cs))"
        by (rule less.hyps)
      with ounce_not_inside_oz have
        "\<not> sublist ''ounce'' (''oz'' @ replaceAll matchOunces ''oz'' (drop (n - 1) cs))"
        by blast
      with Some Cons show ?thesis by simp
    next
      case None
      then have np: "\<not> prefix ''ounce'' (c # cs)"
        using matchOunces_prefix [of "c # cs"] by simp
      have "length cs < length s" by (simp add: Cons)
      then have ih: "\<not> sublist ''ounce'' (replaceAll matchOunces ''oz'' cs)"
        by (rule less.hyps)
      have "\<not> prefix ''ounce'' (c # replaceAll matchOunces ''oz'' cs)"
      proof
        assume "prefix ''ounce'' (c # replaceAll matchOunces ''oz'' cs)"
        then have c: "c = CHR ''o''"
          and "prefix ''unce'' (replaceAll matchOunces ''oz'' cs)" by auto
        from replaceAll_prefix_copied [OF _ _ this(2)] have "prefix ''unce'' cs" by simp
        with c np show False by simp
      qed
      with ih None Cons show ?thesis by (simp add: sublist_Cons_right)
    qed
  qed
qed

lemma normalizeName_no_ounce: "\<not> sublist ''ounce'' (normalizeName v)"
proof
  define r2 where "r2 = replaceAll matchOunces ''oz'' (replaceAll matchFlOz ''oz'' (toLowerCase v))"
  define r3 where "r3 = replaceAll matchOzDot ''oz'' r2"
  define r4 where "r4 = replaceAll (matchChar (\<lambda>c. c = CHR ''-'')) '' '' r3"
  have steps: "nameSteps v
      = replaceAll (matchChar (\<lambda>c. \<not> isLowerAlnum c \<and> \<not> isWhitespace c)) '' '' r4"
    by (simp only: nameSteps_def r2_def r3_def r4_def)
  assume "sublist ''ounce'' (normalizeName v)"
  then have "sublist ''ounce'' (replaceAll matchWhitespaceRun '' '' (nameSteps v))"
    unfolding normalizeName_steps by (rule sublist_trim)
  then have "sublist ''ounce'' (nameSteps v)" by (rule ounce_after_space)
  then have "sublist ''ounce'' r4" unfolding steps by (rule ounce_after_space)
  then have "sublist ''ounce'' r3" unfolding r4_def by (rule ounce_after_space)
  then have "sublist ''ounce'' r2" unfolding r3_def by (rule ounce_after_oz)
  with ounces_removed show False unfolding r2_def by blast
qed

subsection \<open>Idempotence\<close>

text \<open>
  Normalizing a normalized name returns it unchanged whenever the normalized name holds
  neither \<^verbatim>\<open>floz\<close> nor \<^verbatim>\<open>fl oz\<close>.
\<close>

lemma normalizeName_idempotent_without_fl_oz:
  assumes "\<not> includes_str (normalizeName x) ''floz''"
      and "\<not> includes_str (normalizeName x) ''fl oz''"
  shows "normalizeName (normalizeName x) = normalizeName x"
proof -
  define y where "y = normalizeName x"
  have nc: "normalizedChars y" unfolding y_def by (rule normalizeName_chars)
  have ss: "singleSpaced y" unfolding y_def by (rule normalizeName_singleSpaced)
  have tr: "trim y = y" unfolding y_def by (rule normalizeName_trimmed)
  have no_ounce: "\<not> sublist ''ounce'' y" unfolding y_def by (rule normalizeName_no_ounce)
  from assms have no_floz: "\<not> sublist ''floz'' y" and no_fl_oz: "\<not> sublist ''fl oz'' y"
    by (simp_all only: y_def includes_str_sublist not_False_eq_True)
  have s0: "toLowerCase y = y" using nc by (rule toLowerCase_normalized)
  have s1: "replaceAll matchFlOz ''oz'' y = y"
    using nc ss no_floz no_fl_oz by (rule replaceAll_matchFlOz_id)
  have s2: "replaceAll matchOunces ''oz'' y = y"
    using no_ounce by (rule replaceAll_matchOunces_id)
  have s3: "replaceAll matchOzDot ''oz'' y = y"
    using nc by (rule replaceAll_matchOzDot_id)
  have s4: "replaceAll (matchChar (\<lambda>c. c = CHR ''-'')) '' '' y = y"
    by (rule replaceAll_matchChar_id) (use normalizedChars_D(3) [OF nc] in blast)
  have s5: "replaceAll (matchChar (\<lambda>c. \<not> isLowerAlnum c \<and> \<not> isWhitespace c)) '' '' y = y"
    by (rule replaceAll_matchChar_id) (use normalizedChars_D(4) [OF nc] in blast)
  have s6: "replaceAll matchWhitespaceRun '' '' y = y"
    using ss by (rule collapse_id) (use normalizedChars_D(5) [OF nc] in blast)
  have "normalizeName y = y"
    by (simp only: normalizeName_def Let_def s0 s1 s2 s3 s4 s5 s6 tr)
  then show ?thesis by (simp only: y_def)
qed

text \<open>
  Claim C4. Name normalization is idempotent: \<^verbatim>\<open>normalizeName(normalizeName(x))\<close> is
  \<^verbatim>\<open>normalizeName(x)\<close> for every string \<open>x\<close>. The code departs from it on a name that holds
  \<^verbatim>\<open>fl\<close> before \<^verbatim>\<open>ounce\<close> or before \<^verbatim>\<open>-oz\<close>. The first step folds \<^verbatim>\<open>fl oz\<close>, with or
  without the space, to \<^verbatim>\<open>oz\<close>, and it runs before the steps that turn \<^verbatim>\<open>ounce\<close> into
  \<^verbatim>\<open>oz\<close> and a hyphen into a space: \<^verbatim>\<open>flounce\<close> is normalized to \<^verbatim>\<open>floz\<close> and
  \<^verbatim>\<open>Juice 12 fl-oz\<close> to \<^verbatim>\<open>juice 12 fl oz\<close>, which the first step of a second pass folds to
  \<^verbatim>\<open>oz\<close> and \<^verbatim>\<open>juice 12 oz\<close>. The same name written with a space, \<^verbatim>\<open>Juice 12 fl oz\<close>, is
  folded in one pass.
\<close>

theorem normalizeName_not_idempotent:
  "normalizeName ''flounce'' = ''floz''
   \<and> normalizeName (normalizeName ''flounce'') = ''oz''
   \<and> normalizeName ''Juice 12 fl-oz'' = ''juice 12 fl oz''
   \<and> normalizeName (normalizeName ''Juice 12 fl-oz'') = ''juice 12 oz''
   \<and> normalizeName ''Juice 12 fl oz'' = ''juice 12 oz''"
  by code_simp

end
